theory Spec2Isabelle
  imports Main "HOL-Library.Word" "HOL-Library.AList"
begin

unbundle bit_operations_syntax

section \<open>Addresses: Go's net.IP and net.IPNet\<close>

text \<open>
  A \<^verbatim>\<open>net.IP\<close> is a byte slice (4 bytes for the short IPv4 form, 16 bytes otherwise) and a
  \<^verbatim>\<open>net.IPNet\<close> is a pair of a network number and a mask. The four operations of package
  \<^verbatim>\<open>net\<close> that the allocator calls on them (\<^verbatim>\<open>Equal\<close>, \<^verbatim>\<open>To4\<close>, \<^verbatim>\<open>Contains\<close>, and the
  mask that \<^verbatim>\<open>ParseCIDR\<close> builds) are small pure functions on bytes and are written out
  here as the Go standard library defines them; a nil slice is the empty list.
\<close>

type_synonym byte = "8 word"
type_synonym IP = "byte list"

record IPNet =
  IP :: IP
  Mask :: IP

definition v4InV6Prefix :: IP where
  "v4InV6Prefix = [0, 0, 0, 0, 0, 0, 0, 0, 0, 0, 0xff, 0xff]"

text \<open>
  \<^verbatim>\<open>func (ip IP) Equal(x IP) bool\<close>: equal bytes when the lengths agree; a 4-byte address
  equals the 16-byte address that is \<^verbatim>\<open>v4InV6Prefix\<close> followed by its bytes.
\<close>

definition Equal :: "IP \<Rightarrow> IP \<Rightarrow> bool" where
  "Equal ip x =
     (if length ip = length x then ip = x
      else if length ip = 4 \<and> length x = 16 then take 12 x = v4InV6Prefix \<and> ip = drop 12 x
      else if length ip = 16 \<and> length x = 4 then take 12 ip = v4InV6Prefix \<and> drop 12 ip = x
      else False)"

definition isZeros :: "IP \<Rightarrow> bool" where
  "isZeros p = list_all (\<lambda>b. b = 0) p"

text \<open>\<^verbatim>\<open>func (ip IP) To4() IP\<close>; \<open>None\<close> is the nil result.\<close>

definition To4 :: "IP \<Rightarrow> IP option" where
  "To4 ip =
     (if length ip = 4 then Some ip
      else if length ip = 16 \<and> isZeros (take 10 ip) \<and> ip ! 10 = 0xff \<and> ip ! 11 = 0xff
        then Some (drop 12 ip)
      else None)"

text \<open>\<^verbatim>\<open>func networkNumberAndMask(n *IPNet) (ip IP, m IPMask)\<close>\<close>

definition networkNumberAndMask :: "IPNet \<Rightarrow> IP \<times> IP" where
  "networkNumberAndMask n =
     (case To4 (IP n) of
        None \<Rightarrow>
          if length (IP n) \<noteq> 16 then ([], [])
          else if length (Mask n) = 4 then ([], [])
          else if length (Mask n) = 16 then (IP n, Mask n)
          else ([], [])
      | Some ip \<Rightarrow>
          if length (Mask n) = 4 then (ip, Mask n)
          else if length (Mask n) = 16 then (ip, drop 12 (Mask n))
          else ([], []))"

text \<open>
  \<^verbatim>\<open>func (n *IPNet) Contains(ip IP) bool\<close>: the address is first shortened by \<^verbatim>\<open>To4\<close> when
  that succeeds, a length different from the network number's is outside, and otherwise
  every byte must agree with the network number under the mask.
\<close>

definition Contains :: "IPNet \<Rightarrow> IP \<Rightarrow> bool" where
  "Contains n ip0 =
     (let (nn, m) = networkNumberAndMask n;
          ip = (case To4 ip0 of Some x \<Rightarrow> x | None \<Rightarrow> ip0)
      in if length ip \<noteq> length nn then False
         else list_all (\<lambda>j. (nn ! j) AND (m ! j) = (ip ! j) AND (m ! j)) [0..<length ip])"

text \<open>
  \<^verbatim>\<open>func CIDRMask(ones, bits int) IPMask\<close> for \<open>bits = 8 * l\<close>: \<open>ones\<close> leading one bits in
  \<open>l\<close> bytes. The byte at position \<open>j\<close> sees \<open>n = ones - 8 * j\<close> remaining ones and is
  \<^verbatim>\<open>0xff\<close> when \<open>n \<ge> 8\<close>, else \<^verbatim>\<open>^byte(0xff >> n)\<close>.
\<close>

definition CIDRMask_byte :: "nat \<Rightarrow> byte" where
  "CIDRMask_byte n = (if n \<ge> 8 then 0xff else NOT (drop_bit n (0xff :: byte)))"

definition CIDRMask :: "nat \<Rightarrow> nat \<Rightarrow> IP" where
  "CIDRMask ones l = map (\<lambda>j. CIDRMask_byte (ones - 8 * j)) [0..<l]"

text \<open>
  The network that \<^verbatim>\<open>net.ParseCIDR\<close> returns for an address of \<open>length addr\<close> bytes (4 for
  dotted-decimal text, 16 otherwise) and a prefix length \<open>ones\<close>:
  \<^verbatim>\<open>&IPNet{IP: ip.Mask(m), Mask: m}\<close> with \<^verbatim>\<open>m := CIDRMask(ones, bits)\<close>.
\<close>

definition cidr :: "IP \<Rightarrow> nat \<Rightarrow> IPNet" where
  "cidr addr ones =
     (let m = CIDRMask ones (length addr)
      in \<lparr>IP = map (\<lambda>(a, b). a AND b) (zip addr m), Mask = m\<rparr>)"

section \<open>The platform: what the program calls outside the repository\<close>

subsection \<open>Values exchanged with the linked packages\<close>

record LinkAttrs =
  Name :: string
  MTU :: int
  TxQLen :: int
  Index :: int
  HardwareAddr :: string

record Vxlan =
  LinkAttrs :: LinkAttrs
  VxlanId :: int
  VtepDevIndex :: int
  SrcAddr :: IP
  Port :: int
  Learning :: bool
  GBP :: bool
  Group :: "IP option"

record Interface =
  if_Name :: string
  if_HardwareAddr :: string

record ResultInterface =
  res_Name :: string
  res_Mac :: string
  res_Sandbox :: string

record IPConfig =
  res_Interface :: int
  res_Address :: IPNet
  res_Gateway :: "IP option"

record Result =
  res_CNIVersion :: string
  res_Interfaces :: "ResultInterface list"
  res_IPs :: "IPConfig list"

text \<open>\<^verbatim>\<open>PluginConf\<close> of the main package; of the embedded \<^verbatim>\<open>types.NetConf\<close> only the version is read.\<close>

record PluginConf =
  Conf_CNIVersion :: string
  Conf_HostInterface :: string
  Conf_VxlanID :: int
  Conf_MTU :: int
  Conf_Subnet :: string
  Conf_Gateway :: string
  Conf_DataDir :: string

subsection \<open>Calls\<close>

text \<open>
  Every call that leaves the process (files, sysctl, netlink, network namespaces, the
  result printer) is recorded, with its arguments, in the order the program makes it.
\<close>

datatype call =
    MkdirAll string
  | ReadFile string
  | WriteFile string string
  | Sysctl string string
  | LinkByName string
  | AddrList LinkAttrs
  | LinkDel LinkAttrs
  | LinkAdd Vxlan
  | LinkSetUp LinkAttrs
  | AddrAdd LinkAttrs IPNet
  | GetNS string
  | NSClose string
  | SetupVeth string int string string
  | EnterNetNS string
  | LeaveNetNS string
  | RouteAdd int IP
  | LinkSetMaster LinkAttrs LinkAttrs
  | PrintResult Result string
  | DelLinkByNameAddr string

text \<open>
  The platform is a parameter of the model. Its first part is the pure library functions
  whose text formats are not reproduced here (\<open>None\<close> is the error or nil result); its
  second part answers each recorded call from the calls made so far: \<open>fault\<close> gives the
  error message of a call that fails, \<open>torn\<close> the content a failed write leaves behind
  (\<open>None\<close>: the file is untouched), and the \<open>reply\<close> fields the value of a call that
  succeeds.
\<close>

record platform =
  ParseCIDR :: "string \<Rightarrow> IPNet option"
  ParseIP :: "string \<Rightarrow> IP option"
  IP_String :: "IP \<Rightarrow> string"
  json_Marshal :: "(string \<times> string) list \<Rightarrow> string option"
  json_Unmarshal :: "string \<Rightarrow> (string \<times> string) list option"
  json_Unmarshal_conf :: "string \<Rightarrow> PluginConf option"
  filepath_Join :: "string \<Rightarrow> string \<Rightarrow> string"
  Sprintf_d :: "int \<Rightarrow> string"
  fault :: "call list \<Rightarrow> call \<Rightarrow> string option"
  torn :: "call list \<Rightarrow> call \<Rightarrow> string option"
  LinkByName_reply :: "call list \<Rightarrow> string \<Rightarrow> LinkAttrs"
  AddrList_reply :: "call list \<Rightarrow> LinkAttrs \<Rightarrow> IP list"
  SetupVeth_reply :: "call list \<Rightarrow> Interface \<times> Interface"

text \<open>
  The world is what the calls change: the regular files, by path, and the record of the
  calls made.
\<close>

record world =
  files :: "(string \<times> string) list"
  trace :: "call list"

definition record_call :: "call \<Rightarrow> world \<Rightarrow> world" where
  "record_call c w = w\<lparr>trace := trace w @ [c]\<rparr>"

text \<open>A call whose only result is an error value.\<close>

definition perform :: "platform \<Rightarrow> call \<Rightarrow> world \<Rightarrow> string option \<times> world" where
  "perform P c w = (fault P (trace w) c, record_call c w)"

datatype read_result = NotExist | ReadFailed string | Data string

definition os_ReadFile :: "platform \<Rightarrow> string \<Rightarrow> world \<Rightarrow> read_result \<times> world" where
  "os_ReadFile P file w =
     (case fault P (trace w) (ReadFile file) of
        Some e \<Rightarrow> (ReadFailed e, record_call (ReadFile file) w)
      | None \<Rightarrow>
          (case map_of (files w) file of
             None \<Rightarrow> (NotExist, record_call (ReadFile file) w)
           | Some d \<Rightarrow> (Data d, record_call (ReadFile file) w)))"

definition os_WriteFile :: "platform \<Rightarrow> string \<Rightarrow> string \<Rightarrow> world \<Rightarrow> string option \<times> world" where
  "os_WriteFile P file d w =
     (case fault P (trace w) (WriteFile file d) of
        Some e \<Rightarrow>
          (Some e,
           case torn P (trace w) (WriteFile file d) of
             None \<Rightarrow> record_call (WriteFile file d) w
           | Some partial \<Rightarrow> record_call (WriteFile file d) (w\<lparr>files := AList.update file partial (files w)\<rparr>))
      | None \<Rightarrow> (None, record_call (WriteFile file d) (w\<lparr>files := AList.update file d (files w)\<rparr>)))"

section \<open>The allocator (package ipam)\<close>

subsection \<open>inc: the next address\<close>

text \<open>
  \<^verbatim>\<open>for j := len(ip) - 1; j >= 0; j-- { ip[j]++; if ip[j] > 0 { break } }\<close>:
  \<open>inc_from (Suc j)\<close> is the loop about to run its body at index \<open>j\<close>; the byte addition
  wraps around at 256.
\<close>

fun inc_from :: "nat \<Rightarrow> IP \<Rightarrow> IP" where
  "inc_from 0 ip = ip"
| "inc_from (Suc j) ip =
     (let ip' = ip[j := ip ! j + 1]
      in if ip' ! j > 0 then ip' else inc_from j ip')"

definition inc :: "IP \<Rightarrow> IP" where
  "inc ip = inc_from (length ip) ip"

subsection \<open>Errors\<close>

datatype error =
    InvalidSubnet                 \<comment> \<open>"invalid subnet: ..."\<close>
  | InvalidGateway string         \<comment> \<open>"invalid gateway IP: ..."\<close>
  | DataDirError string           \<comment> \<open>"failed to create data directory: ..."\<close>
  | SubnetExhausted               \<comment> \<open>"no available IP addresses in subnet"\<close>
  | ReadError string              \<comment> \<open>"failed to read allocations file: ..."\<close>
  | CorruptState                  \<comment> \<open>"failed to parse allocations file: ..."\<close>
  | InvalidAllocation string      \<comment> \<open>"invalid IP address in allocations: ..."\<close>
  | MarshalError                  \<comment> \<open>"failed to marshal allocations: ..."\<close>
  | WriteError string             \<comment> \<open>"failed to write allocations file: ..."\<close>
  | ConfParseError                \<comment> \<open>"failed to parse network configuration: ..."\<close>
  | MissingHostInterface          \<comment> \<open>"hostInterface must be specified"\<close>
  | MissingSubnet                 \<comment> \<open>"subnet must be specified"\<close>
  | MissingGateway                \<comment> \<open>"gateway must be specified"\<close>
  | External string               \<comment> \<open>an error value returned by a linked package\<close>
  | Wrapped string error          \<comment> \<open>\<^verbatim>\<open>fmt.Errorf("...: %v", err)\<close>\<close>

subsection \<open>The allocator's state\<close>

text \<open>
  \<^verbatim>\<open>Allocations map[string]net.IP\<close> is an association list with one entry per key
  (\<open>AList.update\<close> assigns, \<open>AList.delete\<close> deletes, \<open>map_of\<close> looks up). The mutex is
  not modelled: every operation below runs alone.
\<close>

record IPAM =
  Subnet :: IPNet
  Gateway :: IP
  Allocations :: "(string \<times> IP) list"
  dataDir :: string

definition allocated :: "(string \<times> IP) list \<Rightarrow> IP \<Rightarrow> bool" where
  "allocated allocs ip = list_ex (\<lambda>(cid, allocatedIP). Equal ip allocatedIP) allocs"

definition skipGateway :: "IPAM \<Rightarrow> IP \<Rightarrow> IP" where
  \<comment> \<open>\<^verbatim>\<open>if ip.Equal(i.Gateway) { inc(ip) }\<close>\<close>
  "skipGateway i ip = (if Equal ip (Gateway i) then inc ip else ip)"

text \<open>
  The scan of \<^verbatim>\<open>findAvailableIP\<close> is a \<^verbatim>\<open>for { ... }\<close> without a bound, so its model may
  not return: \<open>None\<close> is the run that never leaves the loop.
\<close>

partial_function (option) findAvailableIP_loop :: "IPAM \<Rightarrow> IP \<Rightarrow> (error + IP) option" where
  "findAvailableIP_loop i ip =
     (if \<not> Contains (Subnet i) ip then Some (Inl SubnetExhausted)
      else if \<not> allocated (Allocations i) ip then Some (Inr ip)
      else findAvailableIP_loop i (skipGateway i (inc ip)))"

declare findAvailableIP_loop.simps [code]

definition findAvailableIP :: "IPAM \<Rightarrow> (error + IP) option" where
  "findAvailableIP i = findAvailableIP_loop i (skipGateway i (inc (IP (Subnet i))))"

subsection \<open>Persistence\<close>

record Config =
  Config_Subnet :: string
  Config_Gateway :: string
  Config_DataDir :: string

definition allocations_file :: "platform \<Rightarrow> IPAM \<Rightarrow> string" where
  \<comment> \<open>\<^verbatim>\<open>filepath.Join(i.dataDir, "allocations.json")\<close>\<close>
  "allocations_file P i = filepath_Join P (dataDir i) ''allocations.json''"

definition saveAllocations :: "platform \<Rightarrow> IPAM \<Rightarrow> world \<Rightarrow> error option \<times> world" where
  "saveAllocations P i w =
     (let allocations = map (\<lambda>(cid, ip). (cid, IP_String P ip)) (Allocations i)
      in case json_Marshal P allocations of
           None \<Rightarrow> (Some MarshalError, w)
         | Some d \<Rightarrow>
             (case os_WriteFile P (allocations_file P i) d w of
                (Some e, w') \<Rightarrow> (Some (WriteError e), w')
              | (None, w') \<Rightarrow> (None, w')))"

text \<open>
  The conversion loop of \<^verbatim>\<open>loadAllocations\<close>: entries are taken in the order of the
  decoded list (Go's order over the decoded map is not fixed); the first text that does
  not parse ends the loop with an error.
\<close>

fun load_entries ::
  "platform \<Rightarrow> (string \<times> string) list \<Rightarrow> (string \<times> IP) list \<Rightarrow> error option \<times> (string \<times> IP) list" where
  "load_entries P [] allocs = (None, allocs)"
| "load_entries P ((cid, ipStr) # rest) allocs =
     (case ParseIP P ipStr of
        None \<Rightarrow> (Some (InvalidAllocation ipStr), allocs)
      | Some ip \<Rightarrow> load_entries P rest (AList.update cid ip allocs))"

definition loadAllocations :: "platform \<Rightarrow> IPAM \<Rightarrow> world \<Rightarrow> error option \<times> IPAM \<times> world" where
  "loadAllocations P i w =
     (case os_ReadFile P (allocations_file P i) w of
        (NotExist, w') \<Rightarrow> (None, i, w')
      | (ReadFailed e, w') \<Rightarrow> (Some (ReadError e), i, w')
      | (Data d, w') \<Rightarrow>
          (case json_Unmarshal P d of
             None \<Rightarrow> (Some CorruptState, i, w')
           | Some allocations \<Rightarrow>
               (case load_entries P allocations (Allocations i) of
                  (r, allocs) \<Rightarrow> (r, i\<lparr>Allocations := allocs\<rparr>, w'))))"

subsection \<open>New, Allocate, Release\<close>

definition New :: "platform \<Rightarrow> Config \<Rightarrow> world \<Rightarrow> (error + IPAM) \<times> world" where
  "New P config w =
     (case ParseCIDR P (Config_Subnet config) of
        None \<Rightarrow> (Inl InvalidSubnet, w)
      | Some subnet \<Rightarrow>
          (case ParseIP P (Config_Gateway config) of
             None \<Rightarrow> (Inl (InvalidGateway (Config_Gateway config)), w)
           | Some gateway \<Rightarrow>
               (let dir = (if Config_DataDir config = [] then ''/var/lib/cni/xvm-cni''
                           else Config_DataDir config)
                in case perform P (MkdirAll dir) w of
                     (Some e, w1) \<Rightarrow> (Inl (DataDirError e), w1)
                   | (None, w1) \<Rightarrow>
                       (case loadAllocations P
                               \<lparr>Subnet = subnet, Gateway = gateway, Allocations = [], dataDir = dir\<rparr> w1 of
                          (Some e, ipam, w2) \<Rightarrow> (Inl e, w2)
                        | (None, ipam, w2) \<Rightarrow> (Inr ipam, w2)))))"

text \<open>
  \<open>Allocate\<close> and \<open>Release\<close> return the result together with the allocator and the world
  as the call leaves them, also when the result is an error.
\<close>

definition Allocate ::
  "platform \<Rightarrow> string \<Rightarrow> IPAM \<Rightarrow> world \<Rightarrow> ((error + IP) \<times> IPAM \<times> world) option" where
  "Allocate P containerID i w =
     (case map_of (Allocations i) containerID of
        Some ip \<Rightarrow> Some (Inr ip, i, w)
      | None \<Rightarrow>
          (case findAvailableIP i of
             None \<Rightarrow> None
           | Some (Inl e) \<Rightarrow> Some (Inl e, i, w)
           | Some (Inr ip) \<Rightarrow>
               (let i' = i\<lparr>Allocations := AList.update containerID ip (Allocations i)\<rparr>
                in case saveAllocations P i' w of
                     (Some e, w') \<Rightarrow> Some (Inl e, i', w')
                   | (None, w') \<Rightarrow> Some (Inr ip, i', w'))))"

definition Release :: "platform \<Rightarrow> string \<Rightarrow> IPAM \<Rightarrow> world \<Rightarrow> error option \<times> IPAM \<times> world" where
  "Release P containerID i w =
     (case map_of (Allocations i) containerID of
        None \<Rightarrow> (None, i, w)
      | Some ip \<Rightarrow>
          (let i' = i\<lparr>Allocations := AList.delete containerID (Allocations i)\<rparr>
           in case saveAllocations P i' w of (r, w') \<Rightarrow> (r, i', w')))"

section \<open>Sequencing calls that may fail\<close>

text \<open>
  A step of the plugin runs in a world and either does not return (\<open>None\<close>, possible only
  through the allocator's scan), or returns an error or a value together with the world
  it leaves. \<open>andThen\<close> is Go's \<^verbatim>\<open>x, err := step(); if err != nil { return err }\<close>.
\<close>

type_synonym 'a io = "world \<Rightarrow> ((error + 'a) \<times> world) option"

definition ret :: "'a \<Rightarrow> 'a io" where
  "ret x w = Some (Inr x, w)"

definition fail_with :: "error \<Rightarrow> 'a io" where
  "fail_with e w = Some (Inl e, w)"

fun continue :: "error + 'a \<Rightarrow> ('a \<Rightarrow> 'b io) \<Rightarrow> 'b io" where
  "continue (Inl e) f w = Some (Inl e, w)"
| "continue (Inr x) f w = f x w"

definition andThen :: "'a io \<Rightarrow> ('a \<Rightarrow> 'b io) \<Rightarrow> 'b io" where
  "andThen m f w =
     (case m w of
        None \<Rightarrow> None
      | Some (r, w') \<Rightarrow> continue r f w')"

definition wrap :: "string \<Rightarrow> 'a io \<Rightarrow> 'a io" where
  \<comment> \<open>\<^verbatim>\<open>if err != nil { return fmt.Errorf("msg: %v", err) }\<close>\<close>
  "wrap msg m w =
     (case m w of
        None \<Rightarrow> None
      | Some (Inl e, w') \<Rightarrow> Some (Inl (Wrapped msg e), w')
      | Some (Inr x, w') \<Rightarrow> Some (Inr x, w'))"

definition external :: "platform \<Rightarrow> call \<Rightarrow> unit io" where
  "external P c w =
     (case perform P c w of
        (Some e, w') \<Rightarrow> Some (Inl (External e), w')
      | (None, w') \<Rightarrow> Some (Inr (), w'))"

definition netlink_LinkByName :: "platform \<Rightarrow> string \<Rightarrow> LinkAttrs io" where
  "netlink_LinkByName P name w =
     (case perform P (LinkByName name) w of
        (Some e, w') \<Rightarrow> Some (Inl (External e), w')
      | (None, w') \<Rightarrow> Some (Inr (LinkByName_reply P (trace w) name), w'))"

definition netlink_AddrList :: "platform \<Rightarrow> LinkAttrs \<Rightarrow> (IP list) io" where
  "netlink_AddrList P link w =
     (case perform P (AddrList link) w of
        (Some e, w') \<Rightarrow> Some (Inl (External e), w')
      | (None, w') \<Rightarrow> Some (Inr (AddrList_reply P (trace w) link), w'))"

definition ip_SetupVeth ::
  "platform \<Rightarrow> string \<Rightarrow> int \<Rightarrow> string \<Rightarrow> string \<Rightarrow> (Interface \<times> Interface) io" where
  "ip_SetupVeth P contVethName mtu mac netns w =
     (case perform P (SetupVeth contVethName mtu mac netns) w of
        (Some e, w') \<Rightarrow> Some (Inl (External e), w')
      | (None, w') \<Rightarrow> Some (Inr (SetupVeth_reply P (trace w)), w'))"

text \<open>\<^verbatim>\<open>ns.WithNetNSPath(nspath, toRun)\<close>: enter the namespace, run, leave.\<close>

fun inNetNS :: "string \<Rightarrow> unit io \<Rightarrow> string option \<times> world \<Rightarrow> ((error + unit) \<times> world) option" where
  "inNetNS nspath toRun (Some e, w1) = Some (Inl (External e), w1)"
| "inNetNS nspath toRun (None, w1) =
     (case toRun w1 of
        None \<Rightarrow> None
      | Some (r, w2) \<Rightarrow> Some (r, record_call (LeaveNetNS nspath) w2))"

definition WithNetNSPath :: "platform \<Rightarrow> string \<Rightarrow> unit io \<Rightarrow> unit io" where
  "WithNetNSPath P nspath toRun w = inNetNS nspath toRun (perform P (EnterNetNS nspath) w)"

definition deferred :: "platform \<Rightarrow> call \<Rightarrow> 'a io \<Rightarrow> 'a io" where
  \<comment> \<open>\<^verbatim>\<open>defer c()\<close> followed by the rest of the function: the call runs on every return\<close>
  "deferred P c m w =
     (case m w of
        None \<Rightarrow> None
      | Some (r, w') \<Rightarrow> Some (r, snd (perform P c w')))"

definition ipam_New :: "platform \<Rightarrow> Config \<Rightarrow> IPAM io" where
  "ipam_New P config w = Some (New P config w)"

definition ipam_Allocate :: "platform \<Rightarrow> string \<Rightarrow> IPAM \<Rightarrow> IP io" where
  "ipam_Allocate P containerID i w =
     (case Allocate P containerID i w of
        None \<Rightarrow> None
      | Some (r, i', w') \<Rightarrow> Some (r, w'))"

definition ipam_Release :: "platform \<Rightarrow> string \<Rightarrow> IPAM \<Rightarrow> unit io" where
  "ipam_Release P containerID i w =
     (case Release P containerID i w of
        (Some e, i', w') \<Rightarrow> Some (Inl e, w')
      | (None, i', w') \<Rightarrow> Some (Inr (), w'))"

section \<open>The tunnel device (package vxlan)\<close>

definition DefaultVxlanPort :: int where "DefaultVxlanPort = 8472"
definition DefaultVxlanVNI :: int where "DefaultVxlanVNI = 10"
definition DefaultMTU :: int where "DefaultMTU = 1500"

record VxlanConfig =
  Vx_HostInterface :: string
  Vx_VxlanID :: int
  Vx_MTU :: int

definition vxlanName :: "platform \<Rightarrow> int \<Rightarrow> string" where
  \<comment> \<open>\<^verbatim>\<open>fmt.Sprintf("vxlan%d", id)\<close>\<close>
  "vxlanName P n = ''vxlan'' @ Sprintf_d P n"

text \<open>
  The middle of \<open>SetupVxlan\<close>:
  \<^verbatim>\<open>existing, err := netlink.LinkByName(vxlanName); if err == nil { LinkDel(existing) ... }\<close>
\<close>

definition deleteExisting :: "platform \<Rightarrow> string \<Rightarrow> unit io" where
  "deleteExisting P name w =
     (case netlink_LinkByName P name w of
        None \<Rightarrow> None
      | Some (Inl e, w1) \<Rightarrow> ret () w1
      | Some (Inr existing, w1) \<Rightarrow>
          wrap ''failed to delete existing VXLAN interface'' (external P (LinkDel existing)) w1)"

definition SetupVxlan :: "platform \<Rightarrow> VxlanConfig \<Rightarrow> Vxlan io" where
  "SetupVxlan P config =
     andThen (wrap ''failed to get host interface'' (netlink_LinkByName P (Vx_HostInterface config)))
       (\<lambda>hostIface.
     andThen (wrap ''failed to get addresses for interface'' (netlink_AddrList P hostIface))
       (\<lambda>addrs.
     if addrs = [] then fail_with (External ''no IPv4 address found on interface'')
     else
       (let hostIP = hd addrs;
            vxlan = \<lparr>LinkAttrs = \<lparr>Name = vxlanName P (Vx_VxlanID config), MTU = Vx_MTU config,
                                   TxQLen = 1000, Index = 0, HardwareAddr = []\<rparr>,
                     VxlanId = Vx_VxlanID config,
                     VtepDevIndex = Index hostIface,
                     SrcAddr = hostIP,
                     Port = DefaultVxlanPort,
                     Learning = True,
                     GBP = False,
                     Group = ParseIP P ''239.1.1.1''\<rparr>
        in
     andThen (deleteExisting P (vxlanName P (Vx_VxlanID config))) (\<lambda>_.
     andThen (wrap ''failed to create VXLAN interface'' (external P (LinkAdd vxlan))) (\<lambda>_.
     andThen (wrap ''failed to set VXLAN interface up'' (external P (LinkSetUp (LinkAttrs vxlan)))) (\<lambda>_.
     ret vxlan))))))"

definition CleanupVxlan :: "platform \<Rightarrow> int \<Rightarrow> unit io" where
  "CleanupVxlan P vxlanID w =
     (case netlink_LinkByName P (vxlanName P vxlanID) w of
        None \<Rightarrow> None
      | Some (Inl e, w1) \<Rightarrow> ret () w1
      | Some (Inr link, w1) \<Rightarrow> wrap ''failed to delete VXLAN interface'' (external P (LinkDel link)) w1)"

definition ConfigureVxlanNetwork :: "platform \<Rightarrow> Vxlan \<Rightarrow> IPNet \<Rightarrow> unit io" where
  "ConfigureVxlanNetwork P vxlan subnet =
     wrap ''failed to add IP address to VXLAN interface'' (external P (AddrAdd (LinkAttrs vxlan) subnet))"

section \<open>The plugin commands (package main)\<close>

record CmdArgs =
  ContainerID :: string
  Netns :: string
  IfName :: string
  StdinData :: string

text \<open>The function literal that \<open>cmdAdd\<close> runs inside the container's namespace.\<close>

definition configureContainer ::
  "platform \<Rightarrow> CmdArgs \<Rightarrow> PluginConf \<Rightarrow> IP \<Rightarrow> IPNet \<Rightarrow> unit io" where
  "configureContainer P args conf containerIP subnet =
     andThen (wrap ''failed to get container veth'' (netlink_LinkByName P (IfName args))) (\<lambda>link.
     andThen (wrap ''failed to add IP address to container veth''
                (external P (AddrAdd link \<lparr>IP = containerIP, Mask = Mask subnet\<rparr>))) (\<lambda>_.
     andThen (wrap ''failed to set container veth up'' (external P (LinkSetUp link))) (\<lambda>_.
     (case ParseIP P (Conf_Gateway conf) of
        None \<Rightarrow> fail_with (InvalidGateway (Conf_Gateway conf))
      | Some gateway \<Rightarrow>
          wrap ''failed to add default route'' (external P (RouteAdd (Index link) gateway))))))"

text \<open>\<open>cmdAdd\<close> from its first call that leaves the process (enabling IP forwarding) on.\<close>

definition cmdAdd_attach :: "platform \<Rightarrow> CmdArgs \<Rightarrow> PluginConf \<Rightarrow> unit io" where
  "cmdAdd_attach P args conf =
     andThen (wrap ''failed to enable IP forwarding''
                (external P (Sysctl ''net.ipv4.ip_forward'' ''1''))) (\<lambda>_.
     andThen (wrap ''failed to setup VXLAN''
                (SetupVxlan P \<lparr>Vx_HostInterface = Conf_HostInterface conf,
                               Vx_VxlanID = Conf_VxlanID conf,
                               Vx_MTU = Conf_MTU conf\<rparr>)) (\<lambda>vxlanIface.
     (case ParseCIDR P (Conf_Subnet conf) of
        None \<Rightarrow> fail_with InvalidSubnet
      | Some subnet \<Rightarrow>
     andThen (wrap ''failed to configure VXLAN network''
                (ConfigureVxlanNetwork P vxlanIface subnet)) (\<lambda>_.
     andThen (wrap ''failed to initialize IPAM''
                (ipam_New P \<lparr>Config_Subnet = Conf_Subnet conf,
                             Config_Gateway = Conf_Gateway conf,
                             Config_DataDir = Conf_DataDir conf\<rparr>)) (\<lambda>ipamInstance.
     andThen (wrap ''failed to allocate IP''
                (ipam_Allocate P (ContainerID args) ipamInstance)) (\<lambda>containerIP.
     andThen (wrap ''failed to open netns'' (external P (GetNS (Netns args)))) (\<lambda>_.
     deferred P (NSClose (Netns args))
      (andThen (wrap ''failed to setup veth pair''
                  (ip_SetupVeth P (IfName args) (Conf_MTU conf) [] (Netns args))) (\<lambda>(hostVeth, containerVeth).
       andThen (WithNetNSPath P (Netns args)
                  (configureContainer P args conf containerIP subnet)) (\<lambda>_.
       andThen (wrap ''failed to get host veth'' (netlink_LinkByName P (if_Name hostVeth))) (\<lambda>hostLink.
       andThen (wrap ''failed to connect host veth to VXLAN''
                  (external P (LinkSetMaster hostLink (LinkAttrs vxlanIface)))) (\<lambda>_.
       external P
         (PrintResult
            \<lparr>res_CNIVersion = Conf_CNIVersion conf,
             res_Interfaces =
               [\<lparr>res_Name = IfName args, res_Mac = if_HardwareAddr containerVeth,
                 res_Sandbox = Netns args\<rparr>,
                \<lparr>res_Name = if_Name hostVeth, res_Mac = if_HardwareAddr hostVeth, res_Sandbox = []\<rparr>,
                \<lparr>res_Name = Name (LinkAttrs vxlanIface),
                 res_Mac = HardwareAddr (LinkAttrs vxlanIface), res_Sandbox = []\<rparr>],
             res_IPs =
               [\<lparr>res_Interface = 0,
                 res_Address = \<lparr>IP = containerIP, Mask = Mask subnet\<rparr>,
                 res_Gateway = ParseIP P (Conf_Gateway conf)\<rparr>]\<rparr>
            (Conf_CNIVersion conf))))))))))))))"

definition cmdAdd :: "platform \<Rightarrow> CmdArgs \<Rightarrow> unit io" where
  "cmdAdd P args =
     (case json_Unmarshal_conf P (StdinData args) of
        None \<Rightarrow> fail_with ConfParseError
      | Some conf0 \<Rightarrow>
          (let conf1 = (if Conf_VxlanID conf0 = 0 then conf0\<lparr>Conf_VxlanID := DefaultVxlanVNI\<rparr>
                        else conf0);
               conf = (if Conf_MTU conf1 = 0 then conf1\<lparr>Conf_MTU := DefaultMTU\<rparr> else conf1)
           in if Conf_HostInterface conf = [] then fail_with MissingHostInterface
              else if Conf_Subnet conf = [] then fail_with MissingSubnet
              else if Conf_Gateway conf = [] then fail_with MissingGateway
              else cmdAdd_attach P args conf))"

definition cmdDel :: "platform \<Rightarrow> CmdArgs \<Rightarrow> unit io" where
  "cmdDel P args =
     (case json_Unmarshal_conf P (StdinData args) of
        None \<Rightarrow> fail_with ConfParseError
      | Some conf \<Rightarrow>
          andThen (wrap ''failed to initialize IPAM''
                     (ipam_New P \<lparr>Config_Subnet = Conf_Subnet conf,
                                  Config_Gateway = Conf_Gateway conf,
                                  Config_DataDir = Conf_DataDir conf\<rparr>)) (\<lambda>ipamInstance.
          andThen (wrap ''failed to release IP''
                     (ipam_Release P (ContainerID args) ipamInstance)) (\<lambda>_.
          if Netns args \<noteq> [] then external P (DelLinkByNameAddr (IfName args))
          else ret ())))"

section \<open>An example platform\<close>

text \<open>
  A platform on which the model can be run: the dotted-decimal text of IPv4 addresses,
  a JSON object of plain strings written in list order, a path join by \<^verbatim>\<open>/\<close>, and an
  operating system on which every call succeeds. It stands for the Go libraries only on
  the inputs of the examples below; the theorems hold for every platform.
\<close>

definition digit :: "nat \<Rightarrow> char" where
  "digit n = char_of (48 + n)"

function decimal :: "nat \<Rightarrow> string" where
  "decimal n = (if n < 10 then [digit n] else decimal (n div 10) @ [digit (n mod 10)])"
  by pat_completeness auto
termination
  by (relation "measure (\<lambda>n. n)") auto

definition decimal_int :: "int \<Rightarrow> string" where
  "decimal_int n = (if n < 0 then ''-'' @ decimal (nat (- n)) else decimal (nat n))"

definition is_digit :: "char \<Rightarrow> bool" where
  "is_digit c = (48 \<le> (of_char c :: nat) \<and> (of_char c :: nat) \<le> 57)"

definition read_decimal :: "string \<Rightarrow> nat option" where
  "read_decimal s =
     (if s = [] \<or> \<not> list_all is_digit s \<or> (length s > 1 \<and> hd s = CHR ''0'') then None
      else Some (foldl (\<lambda>a c. 10 * a + (of_char c - 48)) 0 s))"

fun split_on :: "char \<Rightarrow> string \<Rightarrow> string list" where
  "split_on c [] = [[]]"
| "split_on c (x # xs) =
     (if x = c then [] # split_on c xs
      else (case split_on c xs of [] \<Rightarrow> [[x]] | y # ys \<Rightarrow> (x # y) # ys))"

definition read_octet :: "string \<Rightarrow> byte option" where
  "read_octet s =
     (case read_decimal s of
        None \<Rightarrow> None
      | Some n \<Rightarrow> if length s \<le> 3 \<and> n \<le> 255 then Some (of_nat n) else None)"

definition read_ipv4 :: "string \<Rightarrow> IP option" where
  "read_ipv4 s =
     (case map read_octet (split_on CHR ''.'' s) of
        [Some a, Some b, Some c, Some d] \<Rightarrow> Some [a, b, c, d]
      | _ \<Rightarrow> None)"

definition read_cidr4 :: "string \<Rightarrow> IPNet option" where
  "read_cidr4 s =
     (case split_on CHR ''/'' s of
        [a, n] \<Rightarrow>
          (case (read_ipv4 a, read_decimal n) of
             (Some addr, Some ones) \<Rightarrow> if ones \<le> 32 then Some (cidr addr ones) else None
           | _ \<Rightarrow> None)
      | _ \<Rightarrow> None)"

definition ipv4_text :: "IP \<Rightarrow> string" where
  "ipv4_text ip =
     (case To4 ip of
        Some [a, b, c, d] \<Rightarrow>
          decimal (unat a) @ ''.'' @ decimal (unat b) @ ''.'' @ decimal (unat c) @ ''.'' @ decimal (unat d)
      | _ \<Rightarrow> ''?'')"

definition quote :: char where
  "quote = CHR 0x22"

definition plain :: "string \<Rightarrow> bool" where
  "plain s =
     list_all (\<lambda>c. is_digit c \<or>
                   c \<in> set ''abcdefghijklmnopqrstuvwxyzABCDEFGHIJKLMNOPQRSTUVWXYZ.-_?/:'') s"

fun write_members :: "(string \<times> string) list \<Rightarrow> string" where
  "write_members [] = []"
| "write_members [(k, v)] = quote # k @ quote # CHR '':'' # quote # v @ [quote]"
| "write_members ((k, v) # kvs) =
     quote # k @ quote # CHR '':'' # quote # v @ quote # CHR '','' # write_members kvs"

definition write_object :: "(string \<times> string) list \<Rightarrow> string option" where
  "write_object kvs =
     (if list_all (\<lambda>(k, v). plain k \<and> plain v) kvs then Some (''{'' @ write_members kvs @ ''}'')
      else None)"

fun read_members :: "string list \<Rightarrow> (string \<times> string) list option" where
  "read_members [k, c, v, e] = (if c = '':'' \<and> e = ''}'' then Some [(k, v)] else None)"
| "read_members (k # c # v # s # rest) =
     (if c = '':'' \<and> s = '','' then map_option ((#) (k, v)) (read_members rest) else None)"
| "read_members _ = None"

definition read_object :: "string \<Rightarrow> (string \<times> string) list option" where
  "read_object s =
     (if s = ''{}'' then Some []
      else (case split_on quote s of
              b # rest \<Rightarrow> if b = ''{'' then read_members rest else None
            | [] \<Rightarrow> None))"

text \<open>
  The configuration reader of the example platform reads a flat object of strings; the
  numeric fields \<^verbatim>\<open>vxlanID\<close> and \<^verbatim>\<open>mtu\<close>, which it does not read, are absent (zero), as in the
  example configurations.
\<close>

definition field :: "(string \<times> string) list \<Rightarrow> string \<Rightarrow> string" where
  "field kvs k = (case map_of kvs k of None \<Rightarrow> [] | Some v \<Rightarrow> v)"

definition read_conf :: "string \<Rightarrow> PluginConf option" where
  "read_conf s =
     (case read_object s of
        None \<Rightarrow> None
      | Some kvs \<Rightarrow>
          Some \<lparr>Conf_CNIVersion = field kvs ''cniVersion'',
                Conf_HostInterface = field kvs ''hostInterface'',
                Conf_VxlanID = 0,
                Conf_MTU = 0,
                Conf_Subnet = field kvs ''subnet'',
                Conf_Gateway = field kvs ''gateway'',
                Conf_DataDir = field kvs ''dataDir''\<rparr>)"

definition example_platform :: platform where
  "example_platform =
     \<lparr>ParseCIDR = read_cidr4,
      ParseIP = (\<lambda>s. map_option ((@) v4InV6Prefix) (read_ipv4 s)),
      IP_String = ipv4_text,
      json_Marshal = write_object,
      json_Unmarshal = read_object,
      json_Unmarshal_conf = read_conf,
      filepath_Join = (\<lambda>dir name. dir @ ''/'' @ name),
      Sprintf_d = decimal_int,
      fault = (\<lambda>t c. None),
      torn = (\<lambda>t c. None),
      LinkByName_reply =
        (\<lambda>t name. \<lparr>Name = name, MTU = 1500, TxQLen = 1000, Index = int (length t),
                    HardwareAddr = ''02:00:00:00:00:01''\<rparr>),
      AddrList_reply = (\<lambda>t link. [[192, 168, 1, 10]]),
      SetupVeth_reply =
        (\<lambda>t. (\<lparr>if_Name = ''veth0'', if_HardwareAddr = ''02:00:00:00:00:02''\<rparr>,
              \<lparr>if_Name = ''eth0'', if_HardwareAddr = ''02:00:00:00:00:03''\<rparr>))\<rparr>"

definition empty_world :: world where
  "empty_world = \<lparr>files = [], trace = []\<rparr>"

section \<open>Vocabulary of the properties\<close>

text \<open>The number an address denotes, most significant byte first: the order of the scan.\<close>

definition ip_val :: "IP \<Rightarrow> nat" where
  "ip_val ip = foldl (\<lambda>v b. 256 * v + unat b) 0 ip"



text \<open>Sequences of calls on one allocator, with what each call returned.\<close>

datatype op = Alloc string | Rel string

datatype outcome = Allocated IP | Released | Failed error

fun step :: "platform \<Rightarrow> op \<Rightarrow> IPAM \<Rightarrow> world \<Rightarrow> (outcome \<times> IPAM \<times> world) option" where
  "step P (Alloc c) i w =
     (case Allocate P c i w of
        None \<Rightarrow> None
      | Some (Inl e, i', w') \<Rightarrow> Some (Failed e, i', w')
      | Some (Inr ip, i', w') \<Rightarrow> Some (Allocated ip, i', w'))"
| "step P (Rel c) i w =
     (case Release P c i w of
        (Some e, i', w') \<Rightarrow> Some (Failed e, i', w')
      | (None, i', w') \<Rightarrow> Some (Released, i', w'))"

fun outcome_first ::
  "outcome \<Rightarrow> (outcome list \<times> IPAM \<times> world) option \<Rightarrow> (outcome list \<times> IPAM \<times> world) option" where
  "outcome_first r None = None"
| "outcome_first r (Some (rs, i, w)) = Some (r # rs, i, w)"

fun run :: "platform \<Rightarrow> op list \<Rightarrow> IPAM \<Rightarrow> world \<Rightarrow> (outcome list \<times> IPAM \<times> world) option"
  and run_rest ::
    "platform \<Rightarrow> op list \<Rightarrow> (outcome \<times> IPAM \<times> world) option \<Rightarrow> (outcome list \<times> IPAM \<times> world) option"
  where
  "run P [] i w = Some ([], i, w)"
| "run P (x # xs) i w = run_rest P xs (step P x i w)"
| "run_rest P xs None = None"
| "run_rest P xs (Some (r, i, w)) = outcome_first r (run P xs i w)"

text \<open>The allocator of the repository's test: subnet 10.244.0.0/24, gateway 10.244.0.1.\<close>

definition test_config :: Config where
  "test_config =
     \<lparr>Config_Subnet = ''10.244.0.0/24'', Config_Gateway = ''10.244.0.1'',
      Config_DataDir = ''/tmp/ipam-test''\<rparr>"

definition test_ipam :: IPAM where
  "test_ipam =
     \<lparr>Subnet = \<lparr>IP = [10, 244, 0, 0], Mask = [255, 255, 255, 0]\<rparr>,
      Gateway = v4InV6Prefix @ [10, 244, 0, 1],
      Allocations = [],
      dataDir = ''/tmp/ipam-test''\<rparr>"

text \<open>The example platform with a disk on which every write fails.\<close>

definition disk_full :: platform where
  "disk_full =
     example_platform
       \<lparr>fault := (\<lambda>t c. case c of WriteFile f d \<Rightarrow> Some ''no space left on device'' | _ \<Rightarrow> None)\<rparr>"

text \<open>Worlds in which the test allocator's record file is damaged.\<close>

definition truncated_record :: world where
  "truncated_record = \<lparr>files = [(''/tmp/ipam-test/allocations.json'', ''{'')], trace = []\<rparr>"

definition bad_address_record :: world where
  "bad_address_record =
     \<lparr>files = [(''/tmp/ipam-test/allocations.json'',
                 CHR ''{'' # quote # ''c1'' @ quote # CHR '':'' # quote # ''10.244.0.300'' @ [quote, CHR ''}''])],
      trace = []\<rparr>"

text \<open>
  A request of the container runtime for the test network; its configuration leaves
  \<^verbatim>\<open>vxlanID\<close> and \<^verbatim>\<open>mtu\<close> out. The second configuration also leaves the gateway out.
\<close>

definition test_stdin :: string where
  "test_stdin =
     ''{'' @ write_members
       [(''cniVersion'', ''1.0.0''), (''hostInterface'', ''eth0''), (''subnet'', ''10.244.0.0/24''),
        (''gateway'', ''10.244.0.1''), (''dataDir'', ''/tmp/ipam-test'')] @ ''}''"

definition test_stdin_no_gateway :: string where
  "test_stdin_no_gateway =
     ''{'' @ write_members
       [(''cniVersion'', ''1.0.0''), (''hostInterface'', ''eth0''), (''subnet'', ''10.244.0.0/24''),
        (''dataDir'', ''/tmp/ipam-test'')] @ ''}''"

definition test_args :: CmdArgs where
  "test_args =
     \<lparr>ContainerID = ''c1'', Netns = ''/var/run/netns/test'', IfName = ''eth0'', StdinData = test_stdin\<rparr>"

text \<open>
  The example platform on a host where the link to delete is not there: package
  \<^verbatim>\<open>ip\<close> answers \<^verbatim>\<open>DelLinkByNameAddr\<close> with its error \<^verbatim>\<open>ErrLinkNotFound\<close>, "link not found".
\<close>

definition link_gone :: platform where
  "link_gone =
     example_platform
       \<lparr>fault := (\<lambda>t c. case c of DelLinkByNameAddr n \<Rightarrow> Some ''link not found'' | _ \<Rightarrow> None)\<rparr>"

text \<open>
  \<open>emits Q m\<close>: whenever the step \<open>m\<close> returns, the calls it has recorded come after
  those recorded before, and each of them satisfies \<open>Q\<close>.
\<close>

definition emits :: "(call \<Rightarrow> bool) \<Rightarrow> 'a io \<Rightarrow> bool" where
  "emits Q m \<longleftrightarrow>
     (\<forall>w r w'. m w = Some (r, w') \<longrightarrow> (\<exists>cs. trace w' = trace w @ cs \<and> list_all Q cs))"

text \<open>
  \<open>uses_conf conf c\<close>: a call that creates the tunnel device or the veth pair carries the
  tunnel identifier and the MTU of \<open>conf\<close>. \<open>del_call c\<close>: a call on the data directory,
  the record file, or the deletion of a link by name.
\<close>

definition uses_conf :: "PluginConf \<Rightarrow> call \<Rightarrow> bool" where
  "uses_conf conf c \<longleftrightarrow>
     (\<forall>v. c = LinkAdd v \<longrightarrow> VxlanId v = Conf_VxlanID conf \<and> MTU (LinkAttrs v) = Conf_MTU conf) \<and>
     (\<forall>n m a b. c = SetupVeth n m a b \<longrightarrow> m = Conf_MTU conf)"

definition del_call :: "call \<Rightarrow> bool" where
  "del_call c \<longleftrightarrow>
     (\<exists>p. c = MkdirAll p) \<or> (\<exists>p. c = ReadFile p) \<or> (\<exists>p d. c = WriteFile p d) \<or>
     (\<exists>n. c = DelLinkByNameAddr n)"

text \<open>
  What the scan does, in terms of the order of addresses. \<open>passed i b\<close>: the scan goes
  past \<open>b\<close>, which is the gateway or an address of the subnet that is in the mapping.
  \<open>first_free i ip\<close>: \<open>ip\<close> is above the network address, inside the subnet, not the
  gateway and not in the mapping, and the scan goes past every address between the
  network address and \<open>ip\<close>. \<open>none_free i\<close>: the scan goes past every address \<open>b\<close>
  above the network address that it can reach, that is, such that all addresses from
  the network address up to \<open>b\<close> are inside the subnet or the gateway.
\<close>

definition passed :: "IPAM \<Rightarrow> IP \<Rightarrow> bool" where
  "passed i b \<longleftrightarrow>
     Equal b (Gateway i) \<or> (Contains (Subnet i) b \<and> allocated (Allocations i) b)"

definition first_free :: "IPAM \<Rightarrow> IP \<Rightarrow> bool" where
  "first_free i ip \<longleftrightarrow>
     length ip = length (IP (Subnet i)) \<and> ip_val (IP (Subnet i)) < ip_val ip \<and>
     Contains (Subnet i) ip \<and> \<not> Equal ip (Gateway i) \<and> \<not> allocated (Allocations i) ip \<and>
     (\<forall>b. length b = length ip \<and> ip_val (IP (Subnet i)) < ip_val b \<and> ip_val b < ip_val ip \<longrightarrow>
          passed i b)"

definition none_free :: "IPAM \<Rightarrow> bool" where
  "none_free i \<longleftrightarrow>
     (\<forall>b. length b = length (IP (Subnet i)) \<and> ip_val (IP (Subnet i)) < ip_val b \<and>
          (\<forall>c. length c = length b \<and> ip_val (IP (Subnet i)) < ip_val c \<and> ip_val c \<le> ip_val b \<longrightarrow>
               Equal c (Gateway i) \<or> Contains (Subnet i) c) \<longrightarrow>
          passed i b)"

text \<open>
  \<open>consistent i\<close>: the mapping has one entry per identifier, no two identifiers hold
  equal addresses, and no identifier holds the gateway.
\<close>

definition consistent :: "IPAM \<Rightarrow> bool" where
  "consistent i \<longleftrightarrow>
     distinct (map fst (Allocations i)) \<and>
     (\<forall>c1 c2 a1 a2. map_of (Allocations i) c1 = Some a1 \<and> map_of (Allocations i) c2 = Some a2 \<and>
          c1 \<noteq> c2 \<longrightarrow> \<not> Equal a1 a2) \<and>
     (\<forall>c a. map_of (Allocations i) c = Some a \<longrightarrow> \<not> Equal a (Gateway i))"

text \<open>\<^verbatim>\<open>func (ip IP) Mask(mask IPMask) IP\<close> on slices of one length: the bytewise conjunction.\<close>

definition and_mask :: "IP \<Rightarrow> IP \<Rightarrow> IP" where
  "and_mask xs m = map (\<lambda>(a, b). a AND b) (zip xs m)"

text \<open>The allocator of the test after two allocations.\<close>

definition busy_ipam :: IPAM where
  "busy_ipam = test_ipam\<lparr>Allocations := [(''c1'', [10, 244, 0, 2]), (''c2'', [10, 244, 0, 3])]\<rparr>"


definition wide_ipam :: IPAM where
  "wide_ipam =
     \<lparr>Subnet = \<lparr>IP = [0, 0, 0, 0], Mask = [0, 0, 0, 0]\<rparr>,
      Gateway = v4InV6Prefix @ [0, 0, 0, 1],
      Allocations = [],
      dataDir = ''/tmp/ipam-test''\<rparr>"

definition wide_busy_ipam :: IPAM where
  "wide_busy_ipam = wide_ipam\<lparr>Allocations := [(''c1'', [0, 0, 0, 2])]\<rparr>"

text \<open>
  The allocator that \<open>New\<close> builds for the subnet \<^verbatim>\<open>10.244.0.0/30\<close> with the gateway
  \<^verbatim>\<open>10.244.0.1\<close>: a subnet of four addresses.
\<close>

definition small_config :: Config where
  "small_config =
     \<lparr>Config_Subnet = ''10.244.0.0/30'', Config_Gateway = ''10.244.0.1'', Config_DataDir = ''/tmp/ipam-test''\<rparr>"

definition small_ipam :: IPAM where
  "small_ipam =
     \<lparr>Subnet = \<lparr>IP = [10, 244, 0, 0], Mask = [255, 255, 255, 252]\<rparr>,
      Gateway = v4InV6Prefix @ [10, 244, 0, 1],
      Allocations = [],
      dataDir = ''/tmp/ipam-test''\<rparr>"

text \<open>The address of \<open>l\<close> bytes that denotes the number \<open>n\<close>.\<close>

fun addr :: "nat \<Rightarrow> nat \<Rightarrow> IP" where
  "addr 0 n = []"
| "addr (Suc l) n = addr l (n div 256) @ [of_nat n]"

text \<open>
  The identifiers \<^verbatim>\<open>c2\<close>, \<^verbatim>\<open>c3\<close>, ..., and the mapping in which the IPv4 addresses with the
  numbers from 2 up to \<open>k\<close> (not included) are recorded for them, in this order: what
  \<open>Allocate\<close> calls for these identifiers, in turn, leave on \<^verbatim>\<open>0.0.0.0/0\<close> with the gateway
  \<^verbatim>\<open>0.0.0.1\<close>. In \<open>full_ipam\<close> every address above the gateway is recorded.
\<close>

definition ident :: "nat \<Rightarrow> string" where
  "ident n = CHR ''c'' # decimal n"

definition taken :: "nat \<Rightarrow> (string \<times> IP) list" where
  "taken k = map (\<lambda>n. (ident n, addr 4 n)) [2..<k]"

definition wide_taken :: "nat \<Rightarrow> IPAM" where
  "wide_taken k = wide_ipam\<lparr>Allocations := taken k\<rparr>"






section \<open>Addresses as numbers\<close>

lemma ip_val_Nil [simp]: "ip_val [] = 0"
  by (simp add: ip_val_def)

lemma ip_val_snoc [simp]: "ip_val (xs @ [x]) = 256 * ip_val xs + unat x"
  by (simp add: ip_val_def)

lemma unat_byte: "unat (x :: byte) < 256"
  using unsigned_less [where w = x and ?'a = nat] by simp

lemma byte_wrap: "(x :: byte) + 1 = 0 \<longleftrightarrow> unat x = 255"
proof
  assume "x + 1 = 0"
  then have "x = - 1" by (rule max_word_wrap)
  then show "unat x = 255" by (simp add: unsigned_minus_1_eq_mask mask_eq_exp_minus_1)
next
  assume "unat x = 255"
  then have "unat x = unat (255 :: byte)" by simp
  then have "x = 255" by (simp only: word_unat_eq_iff)
  then show "x + 1 = 0" by simp
qed

lemma ip_val_bound: "ip_val ip < 256 ^ length ip"
proof (induction ip rule: rev_induct)
  case Nil
  then show ?case by simp
next
  case (snoc x xs)
  with unat_byte [of x] show ?case by simp
qed

lemma ip_val_inj: "length xs = length ys \<Longrightarrow> ip_val xs = ip_val ys \<Longrightarrow> xs = ys"
proof (induction xs arbitrary: ys rule: rev_induct)
  case Nil
  then show ?case by simp
next
  case (snoc x xs)
  from snoc.prems(1) obtain y ys' where ys: "ys = ys' @ [y]"
    by (cases ys rule: rev_cases) simp_all
  have bx: "unat x < 256" and bY: "unat y < 256" by (rule unat_byte)+
  from snoc.prems(2) ys have e: "256 * ip_val xs + unat x = 256 * ip_val ys' + unat y" by simp
  from e bx bY have v: "ip_val xs = ip_val ys'" by linarith
  from e v have "unat x = unat y" by simp
  then have "x = y" by (simp only: word_unat_eq_iff)
  moreover from snoc.prems(1) ys have "length xs = length ys'" by simp
  then have "xs = ys'" using v by (rule snoc.IH)
  ultimately show ?case using ys by simp
qed

lemma inc_from_append: "j \<le> length xs \<Longrightarrow> inc_from j (xs @ ys) = inc_from j xs @ ys"
proof (induction j arbitrary: xs)
  case 0
  then show ?case by simp
next
  case (Suc j)
  then have "j < length xs" by simp
  then show ?case using Suc.IH [of "xs[j := xs ! j + 1]"]
    by (simp add: list_update_append1 nth_append Let_def)
qed

lemma inc_snoc:
  "inc (xs @ [x]) = (if x + 1 = 0 then inc xs @ [0] else xs @ [x + 1])"
  using inc_from_append [of "length xs" xs "[0]"]
  by (simp add: inc_def Let_def word_neq_0_conv [symmetric])

lemma inc_Nil [simp]: "inc [] = []"
  by (simp add: inc_def)

lemma length_inc [simp]: "length (inc ip) = length ip"
  by (induction ip rule: rev_induct) (simp_all add: inc_snoc)

lemma ip_val_inc: "ip_val (inc ip) = (ip_val ip + 1) mod 256 ^ length ip"
proof (induction ip rule: rev_induct)
  case Nil
  then show ?case by simp
next
  case (snoc x xs)
  have bx: "unat x < 256" by (rule unat_byte)
  show ?case
  proof (cases "x + 1 = 0")
    case True
    then have ux: "unat x = 255" by (simp add: byte_wrap)
    have "ip_val (inc (xs @ [x])) = 256 * ip_val (inc xs)"
      using True by (simp add: inc_snoc)
    also have "\<dots> = 256 * ((ip_val xs + 1) mod 256 ^ length xs)"
      by (simp only: snoc.IH)
    also have "\<dots> = (256 * (ip_val xs + 1)) mod (256 * 256 ^ length xs)"
      by (rule mult_mod_right)
    also have "256 * (ip_val xs + 1) = ip_val (xs @ [x]) + 1"
      using ux by simp
    also have "256 * 256 ^ length xs = (256::nat) ^ length (xs @ [x])"
      by simp
    finally show ?thesis .
  next
    case False
    then have "unat x \<noteq> 255" by (simp add: byte_wrap)
    with bx have lt: "unat x + 1 < 256" by simp
    then have u: "unat (x + 1) = unat x + 1"
      by (simp add: unat_word_ariths)
    have "256 * ip_val xs + (unat x + 1) < 256 * 256 ^ length xs"
      using ip_val_bound [of xs] lt by arith
    then have "(ip_val (xs @ [x]) + 1) mod 256 ^ length (xs @ [x]) = ip_val (xs @ [x]) + 1"
      by simp
    moreover have "ip_val (inc (xs @ [x])) = ip_val (xs @ [x]) + 1"
      using False u by (simp add: inc_snoc)
    ultimately show ?thesis by simp
  qed
qed

section \<open>Idempotence of Allocate\<close>

text \<open>
  Claim C2. An identifier that already has a recorded address gets that address back, and
  the allocator and the world (files and calls) are left exactly as they were: nothing
  is scanned, inserted or written. Hence a call that returned an address returns the
  same address when it is repeated, without changing anything.
\<close>

theorem Allocate_idempotent:
  "(map_of (Allocations i) containerID = Some ip \<longrightarrow>
      Allocate P containerID i w = Some (Inr ip, i, w)) \<and>
   (Allocate P containerID i w = Some (Inr ip, i', w') \<longrightarrow>
      Allocate P containerID i' w' = Some (Inr ip, i', w'))"
proof (intro conjI impI)
  assume "map_of (Allocations i) containerID = Some ip"
  then show "Allocate P containerID i w = Some (Inr ip, i, w)"
    by (simp add: Allocate_def)
next
  assume a: "Allocate P containerID i w = Some (Inr ip, i', w')"
  have "map_of (Allocations i') containerID = Some ip"
  proof (cases "map_of (Allocations i) containerID")
    case None
    with a show ?thesis
      by (auto simp: Allocate_def Let_def update_conv' split: option.splits sum.splits prod.splits)
  next
    case (Some b)
    with a show ?thesis by (simp add: Allocate_def)
  qed
  then show "Allocate P containerID i' w' = Some (Inr ip, i', w')"
    by (simp add: Allocate_def)
qed

theorem Allocate_idempotent_witness:
  "map_of (Allocations (test_ipam\<lparr>Allocations := [(''c1'', [10, 244, 0, 2])]\<rparr>)) ''c1'' = Some [10, 244, 0, 2] \<and>
   Allocate example_platform ''c1'' (test_ipam\<lparr>Allocations := [(''c1'', [10, 244, 0, 2])]\<rparr>) empty_world =
     Some (Inr [10, 244, 0, 2], test_ipam\<lparr>Allocations := [(''c1'', [10, 244, 0, 2])]\<rparr>, empty_world) \<and>
   (case Allocate example_platform ''c1'' test_ipam empty_world of
      Some (Inr ip, i', w') \<Rightarrow>
        ip = [10, 244, 0, 2] \<and> Allocate example_platform ''c1'' i' w' = Some (Inr ip, i', w')
    | _ \<Rightarrow> False)"
proof -
  have h1: "map_of (Allocations (test_ipam\<lparr>Allocations := [(''c1'', [10, 244, 0, 2])]\<rparr>)) ''c1'' = Some [10, 244, 0, 2]"
    by simp
  have h2: "Allocate example_platform ''c1'' test_ipam empty_world =
      Some (Inr [10, 244, 0, 2], test_ipam\<lparr>Allocations := [(''c1'', [10, 244, 0, 2])]\<rparr>,
            \<lparr>files = [(''/tmp/ipam-test/allocations.json'', CHR ''{'' # quote # ''c1'' @ quote # CHR '':'' # quote # ''10.244.0.2'' @ [quote, CHR ''}''])],
             trace = [WriteFile ''/tmp/ipam-test/allocations.json'' (CHR ''{'' # quote # ''c1'' @ quote # CHR '':'' # quote # ''10.244.0.2'' @ [quote, CHR ''}''])]\<rparr>)"
    by code_simp
  from h1 h2
    Allocate_idempotent [where i = "test_ipam\<lparr>Allocations := [(''c1'', [10, 244, 0, 2])]\<rparr>"
      and containerID = "''c1''" and ip = "[10, 244, 0, 2]" and P = example_platform and w = empty_world]
    Allocate_idempotent [where i = test_ipam and containerID = "''c1''" and P = example_platform
      and w = empty_world and ip = "[10, 244, 0, 2]"]
  show ?thesis by simp
qed

section \<open>Persistence failures\<close>

lemma saveAllocations_write_fault:
  "json_Marshal P (map (\<lambda>(cid, ip). (cid, IP_String P ip)) (Allocations i)) = Some d \<Longrightarrow>
   fault P (trace w) (WriteFile (allocations_file P i) d) = Some m \<Longrightarrow>
   fst (saveAllocations P i w) = Some (WriteError m)"
  by (simp add: saveAllocations_def os_WriteFile_def split: option.splits)


text \<open>
  Claim C8. When saving fails, \<open>Allocate\<close> returns the save's error and the allocator it
  leaves holds the new entry; \<open>Release\<close> returns the save's error and the allocator it
  leaves has lost the entry. Neither undoes its change of the mapping. A failing write of
  the record file is such a failure.
\<close>

theorem save_failure_not_rolled_back:
  "(map_of (Allocations i) c = None \<and> findAvailableIP i = Some (Inr ip) \<and>
    fst (saveAllocations P (i\<lparr>Allocations := AList.update c ip (Allocations i)\<rparr>) w) = Some e \<longrightarrow>
      (\<exists>i' w'. Allocate P c i w = Some (Inl e, i', w') \<and> map_of (Allocations i') c = Some ip \<and>
               Allocations i' = AList.update c ip (Allocations i))) \<and>
   (map_of (Allocations i) c = Some ip \<and>
    fst (saveAllocations P (i\<lparr>Allocations := AList.delete c (Allocations i)\<rparr>) w) = Some e \<longrightarrow>
      (\<exists>i' w'. Release P c i w = (Some e, i', w') \<and> map_of (Allocations i') c = None \<and>
               Allocations i' = AList.delete c (Allocations i))) \<and>
   (json_Marshal P (map (\<lambda>(cid, ip). (cid, IP_String P ip)) (Allocations i)) = Some d \<and>
    fault P (trace w) (WriteFile (allocations_file P i) d) = Some m \<longrightarrow>
      fst (saveAllocations P i w) = Some (WriteError m))"
proof (intro conjI impI)
  assume a: "map_of (Allocations i) c = None \<and> findAvailableIP i = Some (Inr ip) \<and>
    fst (saveAllocations P (i\<lparr>Allocations := AList.update c ip (Allocations i)\<rparr>) w) = Some e"
  then show "\<exists>i' w'. Allocate P c i w = Some (Inl e, i', w') \<and> map_of (Allocations i') c = Some ip \<and>
               Allocations i' = AList.update c ip (Allocations i)"
    by (cases "saveAllocations P (i\<lparr>Allocations := AList.update c ip (Allocations i)\<rparr>) w")
       (simp add: Allocate_def Let_def update_conv')
next
  assume "map_of (Allocations i) c = Some ip \<and>
    fst (saveAllocations P (i\<lparr>Allocations := AList.delete c (Allocations i)\<rparr>) w) = Some e"
  then show "\<exists>i' w'. Release P c i w = (Some e, i', w') \<and> map_of (Allocations i') c = None \<and>
               Allocations i' = AList.delete c (Allocations i)"
    by (cases "saveAllocations P (i\<lparr>Allocations := AList.delete c (Allocations i)\<rparr>) w")
       (simp add: Release_def Let_def delete_conv')
next
  assume "json_Marshal P (map (\<lambda>(cid, ip). (cid, IP_String P ip)) (Allocations i)) = Some d \<and>
    fault P (trace w) (WriteFile (allocations_file P i) d) = Some m"
  then show "fst (saveAllocations P i w) = Some (WriteError m)"
    by (simp add: saveAllocations_write_fault)
qed

theorem save_failure_not_rolled_back_witness:
  "(map_of (Allocations test_ipam) ''c1'' = None \<and>
    findAvailableIP test_ipam = Some (Inr [10, 244, 0, 2]) \<and>
    fst (saveAllocations disk_full
          (test_ipam\<lparr>Allocations := AList.update ''c1'' [10, 244, 0, 2] (Allocations test_ipam)\<rparr>)
          empty_world) = Some (WriteError ''no space left on device'') \<and>
    (\<exists>i' w'. Allocate disk_full ''c1'' test_ipam empty_world =
                Some (Inl (WriteError ''no space left on device''), i', w') \<and>
             map_of (Allocations i') ''c1'' = Some [10, 244, 0, 2])) \<and>
   (map_of (Allocations (test_ipam\<lparr>Allocations := [(''c1'', [10, 244, 0, 2])]\<rparr>)) ''c1'' =
      Some [10, 244, 0, 2] \<and>
    fst (saveAllocations disk_full
          (test_ipam\<lparr>Allocations := [(''c1'', [10, 244, 0, 2])]\<rparr>
             \<lparr>Allocations := AList.delete ''c1''
                (Allocations (test_ipam\<lparr>Allocations := [(''c1'', [10, 244, 0, 2])]\<rparr>))\<rparr>)
          empty_world) = Some (WriteError ''no space left on device'') \<and>
    (\<exists>i' w'. Release disk_full ''c1'' (test_ipam\<lparr>Allocations := [(''c1'', [10, 244, 0, 2])]\<rparr>) empty_world =
                (Some (WriteError ''no space left on device''), i', w') \<and>
             map_of (Allocations i') ''c1'' = None)) \<and>
   (json_Marshal disk_full (map (\<lambda>(cid, ip). (cid, IP_String disk_full ip)) (Allocations test_ipam)) =
      Some ''{}'' \<and>
    fault disk_full (trace empty_world) (WriteFile (allocations_file disk_full test_ipam) ''{}'') =
      Some ''no space left on device'' \<and>
    fst (saveAllocations disk_full test_ipam empty_world) = Some (WriteError ''no space left on device''))"
proof -
  have a1: "map_of (Allocations test_ipam) ''c1'' = None"
    by code_simp
  have a2: "findAvailableIP test_ipam = Some (Inr [10, 244, 0, 2])"
    by code_simp
  have a3: "fst (saveAllocations disk_full
          (test_ipam\<lparr>Allocations := AList.update ''c1'' [10, 244, 0, 2] (Allocations test_ipam)\<rparr>)
          empty_world) = Some (WriteError ''no space left on device'')"
    by code_simp
  have r1: "map_of (Allocations (test_ipam\<lparr>Allocations := [(''c1'', [10, 244, 0, 2])]\<rparr>)) ''c1'' =
      Some [10, 244, 0, 2]"
    by code_simp
  have r2: "fst (saveAllocations disk_full
          (test_ipam\<lparr>Allocations := [(''c1'', [10, 244, 0, 2])]\<rparr>
             \<lparr>Allocations := AList.delete ''c1''
                (Allocations (test_ipam\<lparr>Allocations := [(''c1'', [10, 244, 0, 2])]\<rparr>))\<rparr>)
          empty_world) = Some (WriteError ''no space left on device'')"
    by code_simp
  have s1: "json_Marshal disk_full (map (\<lambda>(cid, ip). (cid, IP_String disk_full ip)) (Allocations test_ipam)) =
      Some ''{}''"
    by code_simp
  have s2: "fault disk_full (trace empty_world) (WriteFile (allocations_file disk_full test_ipam) ''{}'') =
      Some ''no space left on device''"
    by code_simp
  note t = save_failure_not_rolled_back [where P = disk_full and w = empty_world and c = "''c1''"
      and ip = "[10, 244, 0, 2]" and e = "WriteError ''no space left on device''"
      and m = "''no space left on device''" and d = "''{}''"]
  from a1 a2 a3 t [where i = test_ipam] have A: "\<exists>i' w'. Allocate disk_full ''c1'' test_ipam empty_world =
                Some (Inl (WriteError ''no space left on device''), i', w') \<and>
             map_of (Allocations i') ''c1'' = Some [10, 244, 0, 2]"
    by blast
  from r1 r2 t [where i = "test_ipam\<lparr>Allocations := [(''c1'', [10, 244, 0, 2])]\<rparr>"]
  have R: "\<exists>i' w'. Release disk_full ''c1'' (test_ipam\<lparr>Allocations := [(''c1'', [10, 244, 0, 2])]\<rparr>) empty_world =
                (Some (WriteError ''no space left on device''), i', w') \<and>
             map_of (Allocations i') ''c1'' = None"
    by blast
  from s1 s2 t [where i = test_ipam]
  have S: "fst (saveAllocations disk_full test_ipam empty_world) = Some (WriteError ''no space left on device'')"
    by blast
  from a1 a2 a3 A r1 r2 R s1 s2 S show ?thesis by blast
qed

section \<open>Construction and loading\<close>

lemma load_entries_unparseable:
  "(k, s) \<in> set kvs \<Longrightarrow> ParseIP P s = None \<Longrightarrow>
   \<exists>s'. fst (load_entries P kvs allocs) = Some (InvalidAllocation s')"
proof (induction kvs arbitrary: allocs)
  case Nil
  then show ?case by simp
next
  case (Cons kv kvs)
  obtain k' s' where kv: "kv = (k', s')" by (cases kv)
  show ?case
  proof (cases "ParseIP P s'")
    case None
    with kv show ?thesis by simp
  next
    case (Some ip)
    with Cons.prems kv have "(k, s) \<in> set kvs" by auto
    from Cons.IH [OF this Cons.prems(2)] Some kv show ?thesis by simp
  qed
qed

lemma New_invalid_subnet:
  "ParseCIDR P (Config_Subnet c) = None \<Longrightarrow> New P c w = (Inl InvalidSubnet, w)"
  by (simp add: New_def)

lemma New_invalid_gateway:
  "ParseCIDR P (Config_Subnet c) = Some n \<Longrightarrow> ParseIP P (Config_Gateway c) = None \<Longrightarrow>
   New P c w = (Inl (InvalidGateway (Config_Gateway c)), w)"
  by (simp add: New_def)

lemma loadAllocations_corrupt:
  "fault P (trace w) (ReadFile (allocations_file P i)) = None \<Longrightarrow>
   map_of (files w) (allocations_file P i) = Some d \<Longrightarrow>
   json_Unmarshal P d = None \<Longrightarrow>
   fst (loadAllocations P i w) = Some CorruptState"
  by (simp add: loadAllocations_def os_ReadFile_def)

lemma loadAllocations_bad_address:
  "fault P (trace w) (ReadFile (allocations_file P i)) = None \<Longrightarrow>
   map_of (files w) (allocations_file P i) = Some d \<Longrightarrow>
   json_Unmarshal P d = Some kvs \<Longrightarrow> (k, s) \<in> set kvs \<Longrightarrow> ParseIP P s = None \<Longrightarrow>
   \<exists>s'. fst (loadAllocations P i w) = Some (InvalidAllocation s')"
  using load_entries_unparseable [of k s kvs P "Allocations i"]
  by (auto simp: loadAllocations_def os_ReadFile_def split: prod.splits)

lemma loadAllocations_first_run:
  "fault P (trace w) (ReadFile (allocations_file P i)) = None \<Longrightarrow>
   map_of (files w) (allocations_file P i) = None \<Longrightarrow>
   loadAllocations P i w = (None, i, record_call (ReadFile (allocations_file P i)) w)"
  by (simp add: loadAllocations_def os_ReadFile_def)

lemma New_after_mkdir:
  assumes "ParseCIDR P (Config_Subnet c) = Some n" and "ParseIP P (Config_Gateway c) = Some g"
    and dir: "dir = (if Config_DataDir c = [] then ''/var/lib/cni/xvm-cni'' else Config_DataDir c)"
    and "fault P (trace w) (MkdirAll dir) = None"
    and l: "loadAllocations P \<lparr>Subnet = n, Gateway = g, Allocations = [], dataDir = dir\<rparr>
              (record_call (MkdirAll dir) w) = (r, i', w')"
  shows "New P c w = (case r of Some e \<Rightarrow> (Inl e, w') | None \<Rightarrow> (Inr i', w'))"
proof -
  have "New P c w =
     (case loadAllocations P \<lparr>Subnet = n, Gateway = g, Allocations = [], dataDir = dir\<rparr>
              (record_call (MkdirAll dir) w) of
        (Some e, ipam, w2) \<Rightarrow> (Inl e, w2)
      | (None, ipam, w2) \<Rightarrow> (Inr ipam, w2))"
    using assms(1,2,4) unfolding New_def dir [symmetric] Let_def perform_def
    by simp
  then show ?thesis by (simp add: l split: option.splits)
qed

text \<open>
  Claim C7. A gateway that does not parse makes \<open>New\<close> fail with the invalid-gateway
  error, carrying the text of the gateway, and nothing outside the process has been
  called by then: no directory is made, no record is read, no address is allocated. The
  subnet is the other field \<open>New\<close> reads, and it reads it first: the gateway is looked at
  when the subnet parses, and a subnet that does not parse gives the invalid-subnet error
  in the same way. Loading fails when the record file is there and its content does not
  decode, or one of its values is not an address, and then \<open>New\<close> fails with that error.
  When subnet and gateway parse, the data directory can be made and there is no record
  file, \<open>New\<close> returns an allocator with the empty mapping.
\<close>

theorem New_checks_then_loads:
  "(ParseCIDR P (Config_Subnet c) = None \<longrightarrow> New P c w = (Inl InvalidSubnet, w)) \<and>
   (ParseCIDR P (Config_Subnet c) \<noteq> None \<and> ParseIP P (Config_Gateway c) = None \<longrightarrow>
      New P c w = (Inl (InvalidGateway (Config_Gateway c)), w)) \<and>
   (fault P (trace w) (ReadFile (allocations_file P i)) = None \<and>
    map_of (files w) (allocations_file P i) = Some d \<and> json_Unmarshal P d = None \<longrightarrow>
      fst (loadAllocations P i w) = Some CorruptState) \<and>
   (fault P (trace w) (ReadFile (allocations_file P i)) = None \<and>
    map_of (files w) (allocations_file P i) = Some d \<and>
    json_Unmarshal P d = Some kvs \<and> (k, s) \<in> set kvs \<and> ParseIP P s = None \<longrightarrow>
      (\<exists>s'. fst (loadAllocations P i w) = Some (InvalidAllocation s'))) \<and>
   (ParseCIDR P (Config_Subnet c) = Some n \<and> ParseIP P (Config_Gateway c) = Some g \<and>
    dir = (if Config_DataDir c = [] then ''/var/lib/cni/xvm-cni'' else Config_DataDir c) \<and>
    fault P (trace w) (MkdirAll dir) = None \<and>
    fst (loadAllocations P \<lparr>Subnet = n, Gateway = g, Allocations = [], dataDir = dir\<rparr>
           (record_call (MkdirAll dir) w)) = Some e \<longrightarrow>
      fst (New P c w) = Inl e) \<and>
   (ParseCIDR P (Config_Subnet c) = Some n \<and> ParseIP P (Config_Gateway c) = Some g \<and>
    dir = (if Config_DataDir c = [] then ''/var/lib/cni/xvm-cni'' else Config_DataDir c) \<and>
    fault P (trace w) (MkdirAll dir) = None \<and>
    fault P (trace w @ [MkdirAll dir]) (ReadFile (filepath_Join P dir ''allocations.json'')) = None \<and>
    map_of (files w) (filepath_Join P dir ''allocations.json'') = None \<longrightarrow>
      New P c w =
        (Inr \<lparr>Subnet = n, Gateway = g, Allocations = [], dataDir = dir\<rparr>,
         w\<lparr>trace := trace w @ [MkdirAll dir, ReadFile (filepath_Join P dir ''allocations.json'')]\<rparr>))"
proof (intro conjI impI)
  assume "ParseCIDR P (Config_Subnet c) = None"
  then show "New P c w = (Inl InvalidSubnet, w)" by (rule New_invalid_subnet)
next
  assume "ParseCIDR P (Config_Subnet c) \<noteq> None \<and> ParseIP P (Config_Gateway c) = None"
  then show "New P c w = (Inl (InvalidGateway (Config_Gateway c)), w)"
    by (auto simp: New_invalid_gateway)
next
  assume "fault P (trace w) (ReadFile (allocations_file P i)) = None \<and>
    map_of (files w) (allocations_file P i) = Some d \<and> json_Unmarshal P d = None"
  then show "fst (loadAllocations P i w) = Some CorruptState"
    using loadAllocations_corrupt [of P w i d] by blast
next
  assume "fault P (trace w) (ReadFile (allocations_file P i)) = None \<and>
    map_of (files w) (allocations_file P i) = Some d \<and>
    json_Unmarshal P d = Some kvs \<and> (k, s) \<in> set kvs \<and> ParseIP P s = None"
  then show "\<exists>s'. fst (loadAllocations P i w) = Some (InvalidAllocation s')"
    using loadAllocations_bad_address [of P w i d kvs k s] by blast
next
  assume a: "ParseCIDR P (Config_Subnet c) = Some n \<and> ParseIP P (Config_Gateway c) = Some g \<and>
    dir = (if Config_DataDir c = [] then ''/var/lib/cni/xvm-cni'' else Config_DataDir c) \<and>
    fault P (trace w) (MkdirAll dir) = None \<and>
    fst (loadAllocations P \<lparr>Subnet = n, Gateway = g, Allocations = [], dataDir = dir\<rparr>
           (record_call (MkdirAll dir) w)) = Some e"
  obtain r i' w' where l: "loadAllocations P \<lparr>Subnet = n, Gateway = g, Allocations = [], dataDir = dir\<rparr>
           (record_call (MkdirAll dir) w) = (r, i', w')"
    by (cases "loadAllocations P \<lparr>Subnet = n, Gateway = g, Allocations = [], dataDir = dir\<rparr>
           (record_call (MkdirAll dir) w)") auto
  with a have r: "r = Some e" by simp
  from a have a1: "ParseCIDR P (Config_Subnet c) = Some n" and a2: "ParseIP P (Config_Gateway c) = Some g"
    and a3: "dir = (if Config_DataDir c = [] then ''/var/lib/cni/xvm-cni'' else Config_DataDir c)"
    and a4: "fault P (trace w) (MkdirAll dir) = None"
    by blast+
  from New_after_mkdir [OF a1 a2 a3 a4 l] r show "fst (New P c w) = Inl e"
    by simp
next
  assume a: "ParseCIDR P (Config_Subnet c) = Some n \<and> ParseIP P (Config_Gateway c) = Some g \<and>
    dir = (if Config_DataDir c = [] then ''/var/lib/cni/xvm-cni'' else Config_DataDir c) \<and>
    fault P (trace w) (MkdirAll dir) = None \<and>
    fault P (trace w @ [MkdirAll dir]) (ReadFile (filepath_Join P dir ''allocations.json'')) = None \<and>
    map_of (files w) (filepath_Join P dir ''allocations.json'') = None"
  let ?i = "\<lparr>Subnet = n, Gateway = g, Allocations = [], dataDir = dir\<rparr>"
  let ?w1 = "record_call (MkdirAll dir) w"
  have f: "allocations_file P ?i = filepath_Join P dir ''allocations.json''"
    by (simp add: allocations_file_def)
  from a have a5: "fault P (trace w @ [MkdirAll dir]) (ReadFile (filepath_Join P dir ''allocations.json'')) = None"
    and a6: "map_of (files w) (filepath_Join P dir ''allocations.json'') = None"
    by blast+
  have "loadAllocations P ?i ?w1 = (None, ?i, record_call (ReadFile (allocations_file P ?i)) ?w1)"
    using a5 a6 by (intro loadAllocations_first_run) (simp_all add: f record_call_def)
  then have l: "loadAllocations P ?i ?w1 =
      (None, ?i, w\<lparr>trace := trace w @ [MkdirAll dir, ReadFile (filepath_Join P dir ''allocations.json'')]\<rparr>)"
    by (simp add: f record_call_def)
  from a have a1: "ParseCIDR P (Config_Subnet c) = Some n" and a2: "ParseIP P (Config_Gateway c) = Some g"
    and a3: "dir = (if Config_DataDir c = [] then ''/var/lib/cni/xvm-cni'' else Config_DataDir c)"
    and a4: "fault P (trace w) (MkdirAll dir) = None"
    by blast+
  from New_after_mkdir [OF a1 a2 a3 a4 l] show "New P c w =
        (Inr \<lparr>Subnet = n, Gateway = g, Allocations = [], dataDir = dir\<rparr>,
         w\<lparr>trace := trace w @ [MkdirAll dir, ReadFile (filepath_Join P dir ''allocations.json'')]\<rparr>)"
    by simp
qed

theorem New_checks_then_loads_witness:
  "(ParseCIDR example_platform (Config_Subnet (test_config\<lparr>Config_Subnet := ''10.244.0.0/33''\<rparr>)) = None \<and>
    New example_platform (test_config\<lparr>Config_Subnet := ''10.244.0.0/33''\<rparr>) empty_world =
      (Inl InvalidSubnet, empty_world)) \<and>
   (ParseCIDR example_platform (Config_Subnet (test_config\<lparr>Config_Gateway := ''10.244.0.256''\<rparr>)) \<noteq> None \<and>
    ParseIP example_platform (Config_Gateway (test_config\<lparr>Config_Gateway := ''10.244.0.256''\<rparr>)) = None \<and>
    New example_platform (test_config\<lparr>Config_Gateway := ''10.244.0.256''\<rparr>) empty_world =
      (Inl (InvalidGateway ''10.244.0.256''), empty_world)) \<and>
   (json_Unmarshal example_platform ''{'' = None \<and>
    fst (loadAllocations example_platform test_ipam truncated_record) = Some CorruptState) \<and>
   (json_Unmarshal example_platform
      (CHR ''{'' # quote # ''c1'' @ quote # CHR '':'' # quote # ''10.244.0.300'' @ [quote, CHR ''}'']) =
      Some [(''c1'', ''10.244.0.300'')] \<and>
    ParseIP example_platform ''10.244.0.300'' = None \<and>
    (\<exists>s'. fst (loadAllocations example_platform test_ipam bad_address_record) =
      Some (InvalidAllocation s'))) \<and>
   fst (New example_platform test_config truncated_record) = Inl CorruptState \<and>
   (map_of (files empty_world) ''/tmp/ipam-test/allocations.json'' = None \<and>
    New example_platform test_config empty_world =
      (Inr test_ipam,
       \<lparr>files = [], trace = [MkdirAll ''/tmp/ipam-test'', ReadFile ''/tmp/ipam-test/allocations.json'']\<rparr>))"
proof -
  note t = New_checks_then_loads [where P = example_platform]
  note t1 = t [THEN conjunct1, rule_format]
  note t2 = t [THEN conjunct2, THEN conjunct1, rule_format]
  note t3 = t [THEN conjunct2, THEN conjunct2, THEN conjunct1, rule_format]
  note t3b = t [THEN conjunct2, THEN conjunct2, THEN conjunct2, THEN conjunct1, rule_format]
  note t4 = t [THEN conjunct2, THEN conjunct2, THEN conjunct2, THEN conjunct2, THEN conjunct1, rule_format]
  note t5 = t [THEN conjunct2, THEN conjunct2, THEN conjunct2, THEN conjunct2, THEN conjunct2, rule_format]
  have h1: "ParseCIDR example_platform (Config_Subnet (test_config\<lparr>Config_Subnet := ''10.244.0.0/33''\<rparr>)) = None"
    by code_simp
  have c1: "New example_platform (test_config\<lparr>Config_Subnet := ''10.244.0.0/33''\<rparr>) empty_world =
      (Inl InvalidSubnet, empty_world)"
    by (rule t1 [OF h1])
  have h2: "ParseCIDR example_platform (Config_Subnet (test_config\<lparr>Config_Gateway := ''10.244.0.256''\<rparr>)) \<noteq> None"
    by code_simp
  have h2': "ParseIP example_platform (Config_Gateway (test_config\<lparr>Config_Gateway := ''10.244.0.256''\<rparr>)) = None"
    by code_simp
  have g: "Config_Gateway (test_config\<lparr>Config_Gateway := ''10.244.0.256''\<rparr>) = ''10.244.0.256''"
    by simp
  have c2: "New example_platform (test_config\<lparr>Config_Gateway := ''10.244.0.256''\<rparr>) empty_world =
      (Inl (InvalidGateway ''10.244.0.256''), empty_world)"
    using t2 [OF conjI [OF h2 h2'], of empty_world] unfolding g .
  have f: "fault example_platform t' (ReadFile x) = None" for t' x
    by (simp add: example_platform_def)
  have fm: "fault example_platform t' (MkdirAll x) = None" for t' x
    by (simp add: example_platform_def)
  have join: "filepath_Join example_platform ''/tmp/ipam-test'' ''allocations.json'' = ''/tmp/ipam-test/allocations.json''"
    by code_simp
  have h3: "map_of (files truncated_record) (allocations_file example_platform test_ipam) = Some ''{''"
    by code_simp
  have h3': "json_Unmarshal example_platform ''{'' = None"
    by code_simp
  have c3: "fst (loadAllocations example_platform test_ipam truncated_record) = Some CorruptState"
    by (rule t3 [OF conjI [OF f conjI [OF h3 h3']]])
  let ?d = "CHR ''{'' # quote # ''c1'' @ quote # CHR '':'' # quote # ''10.244.0.300'' @ [quote, CHR ''}'']"
  have h4: "map_of (files bad_address_record) (allocations_file example_platform test_ipam) = Some ?d"
    by code_simp
  have h4': "json_Unmarshal example_platform ?d = Some [(''c1'', ''10.244.0.300'')]"
    by code_simp
  have h4'': "ParseIP example_platform ''10.244.0.300'' = None"
    by code_simp
  have h4m: "(''c1'', ''10.244.0.300'') \<in> set [(''c1'', ''10.244.0.300'')]"
    by simp
  have c4: "\<exists>s'. fst (loadAllocations example_platform test_ipam bad_address_record) = Some (InvalidAllocation s')"
    by (rule t3b [OF conjI [OF f conjI [OF h4 conjI [OF h4' conjI [OF h4m h4'']]]]])
  have p1: "ParseCIDR example_platform (Config_Subnet test_config) = Some (Subnet test_ipam)"
    by code_simp
  have p2: "ParseIP example_platform (Config_Gateway test_config) = Some (Gateway test_ipam)"
    by code_simp
  have p3: "''/tmp/ipam-test'' = (if Config_DataDir test_config = [] then ''/var/lib/cni/xvm-cni'' else Config_DataDir test_config)"
    by code_simp
  have ti: "\<lparr>Subnet = Subnet test_ipam, Gateway = Gateway test_ipam, Allocations = [], dataDir = ''/tmp/ipam-test''\<rparr> = test_ipam"
    by (simp add: test_ipam_def)
  have p5: "fst (loadAllocations example_platform test_ipam (record_call (MkdirAll ''/tmp/ipam-test'') truncated_record)) = Some CorruptState"
    by code_simp
  have c5: "fst (New example_platform test_config truncated_record) = Inl CorruptState"
    by (rule t4 [OF conjI [OF p1 conjI [OF p2 conjI [OF p3 conjI [OF fm]]]]]) (simp only: ti p5)
  have p6: "map_of (files empty_world) ''/tmp/ipam-test/allocations.json'' = None"
    by code_simp
  have "New example_platform test_config empty_world =
      (Inr \<lparr>Subnet = Subnet test_ipam, Gateway = Gateway test_ipam, Allocations = [], dataDir = ''/tmp/ipam-test''\<rparr>,
       empty_world\<lparr>trace := trace empty_world @ [MkdirAll ''/tmp/ipam-test'',
         ReadFile (filepath_Join example_platform ''/tmp/ipam-test'' ''allocations.json'')]\<rparr>)"
    by (rule t5 [OF conjI [OF p1 conjI [OF p2 conjI [OF p3 conjI [OF fm conjI [OF f]]]]]]) (simp only: join p6)
  then have c6: "New example_platform test_config empty_world =
      (Inr test_ipam,
       \<lparr>files = [], trace = [MkdirAll ''/tmp/ipam-test'', ReadFile ''/tmp/ipam-test/allocations.json'']\<rparr>)"
    unfolding ti join by (simp add: empty_world_def)
  from h1 c1 h2 h2' c2 h3' c3 h4' h4'' c4 c5 p6 c6 show ?thesis
    by (intro conjI)
qed

section \<open>The calls a step records\<close>

lemma emitsI:
  "(\<And>w r w'. m w = Some (r, w') \<Longrightarrow> \<exists>cs. trace w' = trace w @ cs \<and> list_all Q cs) \<Longrightarrow> emits Q m"
  unfolding emits_def by blast

lemma emitsD:
  "emits Q m \<Longrightarrow> m w = Some (r, w') \<Longrightarrow> \<exists>cs. trace w' = trace w @ cs \<and> list_all Q cs"
  unfolding emits_def by blast

lemma emits_ret: "emits Q (ret x)"
  by (rule emitsI) (auto simp: ret_def)

lemma emits_fail_with: "emits Q (fail_with e)"
  by (rule emitsI) (auto simp: fail_with_def)

lemma emits_andThen:
  assumes m: "emits Q m" and f: "\<And>x. emits Q (f x)"
  shows "emits Q (andThen m f)"
proof (rule emitsI)
  fix w r w'
  assume a: "andThen m f w = Some (r, w')"
  then obtain r1 w1 where m1: "m w = Some (r1, w1)"
    by (cases "m w") (auto simp: andThen_def)
  from emitsD [OF m m1] obtain cs1 where c1: "trace w1 = trace w @ cs1" "list_all Q cs1"
    by blast
  from a m1 have c: "continue r1 f w1 = Some (r, w')" by (simp add: andThen_def)
  show "\<exists>cs. trace w' = trace w @ cs \<and> list_all Q cs"
  proof (cases r1)
    case (Inl e)
    with c have "w' = w1" by simp
    with c1 show ?thesis by blast
  next
    case (Inr x)
    with c have "f x w1 = Some (r, w')" by simp
    from emitsD [OF f this] obtain cs2 where "trace w' = trace w1 @ cs2" "list_all Q cs2"
      by blast
    with c1 have "trace w' = trace w @ (cs1 @ cs2) \<and> list_all Q (cs1 @ cs2)" by simp
    then show ?thesis by blast
  qed
qed

lemma emits_wrap: "emits Q m \<Longrightarrow> emits Q (wrap msg m)"
  by (rule emitsI) (auto simp: wrap_def split: option.splits sum.splits dest: emitsD)

lemma trace_perform: "perform P c w = (r, w') \<Longrightarrow> trace w' = trace w @ [c]"
  by (auto simp: perform_def record_call_def)

lemma emits_external: "Q c \<Longrightarrow> emits Q (external P c)"
  by (rule emitsI) (auto simp: external_def split: prod.splits option.splits dest: trace_perform)

lemma emits_LinkByName: "Q (LinkByName name) \<Longrightarrow> emits Q (netlink_LinkByName P name)"
  by (rule emitsI) (auto simp: netlink_LinkByName_def split: prod.splits option.splits dest: trace_perform)

lemma emits_AddrList: "Q (AddrList link) \<Longrightarrow> emits Q (netlink_AddrList P link)"
  by (rule emitsI) (auto simp: netlink_AddrList_def split: prod.splits option.splits dest: trace_perform)

lemma emits_SetupVeth: "Q (SetupVeth n mtu mac ns) \<Longrightarrow> emits Q (ip_SetupVeth P n mtu mac ns)"
  by (rule emitsI) (auto simp: ip_SetupVeth_def split: prod.splits option.splits dest: trace_perform)

lemma emits_WithNetNSPath:
  assumes "Q (EnterNetNS p)" and "Q (LeaveNetNS p)" and m: "emits Q m"
  shows "emits Q (WithNetNSPath P p m)"
proof (rule emitsI)
  fix w r w'
  assume a: "WithNetNSPath P p m w = Some (r, w')"
  obtain e w1 where p: "perform P (EnterNetNS p) w = (e, w1)" by (cases "perform P (EnterNetNS p) w")
  from trace_perform [OF p] have t1: "trace w1 = trace w @ [EnterNetNS p]" .
  show "\<exists>cs. trace w' = trace w @ cs \<and> list_all Q cs"
  proof (cases e)
    case (Some x)
    with a p have "w' = w1" by (simp add: WithNetNSPath_def)
    with t1 assms(1) show ?thesis by simp
  next
    case None
    with a p obtain w2 where m2: "m w1 = Some (r, w2)" and w': "w' = record_call (LeaveNetNS p) w2"
      by (auto simp: WithNetNSPath_def split: option.splits)
    from emitsD [OF m m2] obtain cs where "trace w2 = trace w1 @ cs" "list_all Q cs" by blast
    with t1 w' assms have "trace w' = trace w @ (EnterNetNS p # cs @ [LeaveNetNS p]) \<and>
        list_all Q (EnterNetNS p # cs @ [LeaveNetNS p])"
      by (simp add: record_call_def)
    then show ?thesis by blast
  qed
qed

lemma emits_deferred:
  assumes "Q c" and m: "emits Q m"
  shows "emits Q (deferred P c m)"
proof (rule emitsI)
  fix w r w'
  assume a: "deferred P c m w = Some (r, w')"
  then obtain w1 where m1: "m w = Some (r, w1)" and w': "w' = snd (perform P c w1)"
    by (auto simp: deferred_def split: option.splits)
  from emitsD [OF m m1] obtain cs where "trace w1 = trace w @ cs" "list_all Q cs" by blast
  with w' assms(1) have "trace w' = trace w @ (cs @ [c]) \<and> list_all Q (cs @ [c])"
    by (simp add: perform_def record_call_def)
  then show "\<exists>cs. trace w' = trace w @ cs \<and> list_all Q cs" by blast
qed

lemma trace_saveAllocations:
  "saveAllocations P i w = (r, w') \<Longrightarrow>
   trace w' = trace w \<or> (\<exists>d. trace w' = trace w @ [WriteFile (allocations_file P i) d])"
  by (auto simp: saveAllocations_def os_WriteFile_def record_call_def Let_def
           split: option.splits prod.splits)

lemma trace_loadAllocations:
  "loadAllocations P i w = (r, i', w') \<Longrightarrow> trace w' = trace w @ [ReadFile (allocations_file P i)]"
  by (auto simp: loadAllocations_def os_ReadFile_def record_call_def
           split: option.splits prod.splits read_result.splits)

lemma trace_New:
  "New P c w = (r, w') \<Longrightarrow>
   \<exists>cs. trace w' = trace w @ cs \<and> list_all (\<lambda>c. (\<exists>p. c = MkdirAll p) \<or> (\<exists>p. c = ReadFile p)) cs"
proof (cases "ParseCIDR P (Config_Subnet c)")
  case None
  assume "New P c w = (r, w')"
  with None show ?thesis by (simp add: New_def)
next
  case (Some n)
  assume a: "New P c w = (r, w')"
  show ?thesis
  proof (cases "ParseIP P (Config_Gateway c)")
    case None
    with a Some show ?thesis by (simp add: New_def)
  next
    case g: (Some g)
    let ?dir = "if Config_DataDir c = [] then ''/var/lib/cni/xvm-cni'' else Config_DataDir c"
    show ?thesis
    proof (cases "fault P (trace w) (MkdirAll ?dir)")
      case (Some e)
      with a \<open>ParseCIDR P (Config_Subnet c) = Some n\<close> g
      have "trace w' = trace w @ [MkdirAll ?dir]"
        by (auto simp: New_def perform_def record_call_def Let_def)
      then show ?thesis by simp
    next
      case None
      obtain r2 i2 w2 where l: "loadAllocations P
          \<lparr>Subnet = n, Gateway = g, Allocations = [], dataDir = ?dir\<rparr> (record_call (MkdirAll ?dir) w) = (r2, i2, w2)"
        by (cases "loadAllocations P
          \<lparr>Subnet = n, Gateway = g, Allocations = [], dataDir = ?dir\<rparr> (record_call (MkdirAll ?dir) w)") auto
      from New_after_mkdir [OF \<open>ParseCIDR P (Config_Subnet c) = Some n\<close> g refl None l] a
      have "w' = w2" by (auto split: option.splits)
      with trace_loadAllocations [OF l]
      have "trace w' = trace w @ [MkdirAll ?dir, ReadFile (allocations_file P
          \<lparr>Subnet = n, Gateway = g, Allocations = [], dataDir = ?dir\<rparr>)]"
        by (simp add: record_call_def)
      then show ?thesis by simp
    qed
  qed
qed

lemma emits_ipam_New:
  "(\<And>p. Q (MkdirAll p)) \<Longrightarrow> (\<And>p. Q (ReadFile p)) \<Longrightarrow> emits Q (ipam_New P c)"
proof (rule emitsI)
  fix w r w'
  assume q: "\<And>p. Q (MkdirAll p)" "\<And>p. Q (ReadFile p)" and "ipam_New P c w = Some (r, w')"
  then have "New P c w = (r, w')" by (simp add: ipam_New_def)
  from trace_New [OF this] obtain cs where cs: "trace w' = trace w @ cs"
    "list_all (\<lambda>c. (\<exists>p. c = MkdirAll p) \<or> (\<exists>p. c = ReadFile p)) cs" by blast
  from cs(2) q have "list_all Q cs" by (auto simp: list_all_iff)
  with cs(1) show "\<exists>cs. trace w' = trace w @ cs \<and> list_all Q cs" by blast
qed

lemma emits_ipam_Allocate:
  assumes q: "\<And>p d. Q (WriteFile p d)"
  shows "emits Q (ipam_Allocate P c i)"
proof (rule emitsI)
  fix w r w'
  assume "ipam_Allocate P c i w = Some (r, w')"
  then obtain i' where a: "Allocate P c i w = Some (r, i', w')"
    by (auto simp: ipam_Allocate_def split: option.splits)
  have "trace w' = trace w \<or> (\<exists>p d. trace w' = trace w @ [WriteFile p d])"
  proof (cases "map_of (Allocations i) c")
    case (Some ip)
    with a show ?thesis by (simp add: Allocate_def)
  next
    case None
    with a show ?thesis
      by (auto simp: Allocate_def Let_def split: option.splits sum.splits prod.splits
               dest!: trace_saveAllocations)
  qed
  with q show "\<exists>cs. trace w' = trace w @ cs \<and> list_all Q cs" by auto
qed

lemma emits_ipam_Release:
  assumes q: "\<And>p d. Q (WriteFile p d)"
  shows "emits Q (ipam_Release P c i)"
proof (rule emitsI)
  fix w r w'
  assume "ipam_Release P c i w = Some (r, w')"
  then obtain e i' where a: "Release P c i w = (e, i', w')"
    by (auto simp: ipam_Release_def split: option.splits prod.splits)
  have "trace w' = trace w \<or> (\<exists>p d. trace w' = trace w @ [WriteFile p d])"
  proof (cases "map_of (Allocations i) c")
    case None
    with a show ?thesis by (simp add: Release_def)
  next
    case (Some ip)
    with a show ?thesis
      by (auto simp: Release_def Let_def split: prod.splits dest!: trace_saveAllocations)
  qed
  with q show "\<exists>cs. trace w' = trace w @ cs \<and> list_all Q cs" by auto
qed

section \<open>The calls of the plugin commands\<close>

lemmas emits_intros =
  emits_ret emits_fail_with emits_andThen emits_wrap emits_external emits_LinkByName
  emits_AddrList emits_SetupVeth emits_WithNetNSPath emits_deferred emits_ipam_New
  emits_ipam_Allocate emits_ipam_Release

lemma emits_deleteExisting:
  "Q (LinkByName name) \<Longrightarrow> (\<And>l. Q (LinkDel l)) \<Longrightarrow> emits Q (deleteExisting P name)"
proof (rule emitsI)
  fix w r w'
  assume q: "Q (LinkByName name)" "\<And>l. Q (LinkDel l)" and a: "deleteExisting P name w = Some (r, w')"
  then obtain r1 w1 where l: "netlink_LinkByName P name w = Some (r1, w1)"
    by (cases "netlink_LinkByName P name w") (auto simp: deleteExisting_def)
  from emitsD [OF emits_LinkByName [of Q name P, OF q(1)] l]
  obtain cs1 where c1: "trace w1 = trace w @ cs1" "list_all Q cs1" by blast
  show "\<exists>cs. trace w' = trace w @ cs \<and> list_all Q cs"
  proof (cases r1)
    case (Inl e)
    with a l have "w' = w1" by (simp add: deleteExisting_def ret_def)
    with c1 show ?thesis by blast
  next
    case (Inr existing)
    with a l have "wrap ''failed to delete existing VXLAN interface'' (external P (LinkDel existing)) w1 = Some (r, w')"
      by (simp add: deleteExisting_def)
    from emitsD [OF emits_wrap [OF emits_external [of Q "LinkDel existing" P, OF q(2)]] this]
    obtain cs2 where "trace w' = trace w1 @ cs2" "list_all Q cs2" by blast
    with c1 have "trace w' = trace w @ (cs1 @ cs2) \<and> list_all Q (cs1 @ cs2)" by simp
    then show ?thesis by blast
  qed
qed

lemma emits_SetupVxlan:
  "emits (uses_conf conf)
     (SetupVxlan P \<lparr>Vx_HostInterface = Conf_HostInterface conf, Vx_VxlanID = Conf_VxlanID conf,
                    Vx_MTU = Conf_MTU conf\<rparr>)"
  unfolding SetupVxlan_def Let_def
  by (intro emits_intros emits_deleteExisting allI impI conjI | simp add: uses_conf_def)+

lemma emits_cmdAdd_attach: "emits (uses_conf conf) (cmdAdd_attach P args conf)"
  unfolding cmdAdd_attach_def ConfigureVxlanNetwork_def configureContainer_def
  by (intro emits_intros emits_SetupVxlan conjI allI impI | simp add: uses_conf_def split: option.splits prod.splits)+

lemma emits_cmdDel: "emits del_call (cmdDel P args)"
  unfolding cmdDel_def
  by (intro emits_intros conjI allI impI | simp add: del_call_def split: option.splits prod.splits)+

lemma emits_CleanupVxlan_calls:
  "CleanupVxlan P n w = Some (r, w') \<Longrightarrow> \<exists>cs. trace w' = trace w @ LinkByName (vxlanName P n) # cs"
  by (auto simp: CleanupVxlan_def netlink_LinkByName_def perform_def record_call_def ret_def wrap_def external_def
           split: option.splits prod.splits sum.splits)

section \<open>cmdAdd: validation and defaults\<close>

text \<open>
  Claim C9. A request whose configuration decodes but has no host interface, no subnet or
  no gateway fails with the error of the first missing field, in the order host
  interface, subnet, gateway, and the world it leaves is the world it found: no call
  outside the process has been made (no sysctl, no netlink call, no file of the
  allocator). In every run of \<open>cmdAdd\<close> that returns, each tunnel device it creates has
  identifier 10 and each device it creates (tunnel or veth) has MTU 1500 when the
  configuration left the field at zero, and the configured value otherwise.
\<close>

theorem cmdAdd_validates_first:
  "(json_Unmarshal_conf P (StdinData args) = Some conf \<and>
    (Conf_HostInterface conf = [] \<or> Conf_Subnet conf = [] \<or> Conf_Gateway conf = []) \<longrightarrow>
      cmdAdd P args w =
        Some (Inl (if Conf_HostInterface conf = [] then MissingHostInterface
                   else if Conf_Subnet conf = [] then MissingSubnet else MissingGateway), w)) \<and>
   (json_Unmarshal_conf P (StdinData args) = Some conf \<and> cmdAdd P args w = Some (r, w') \<longrightarrow>
      (\<exists>cs. trace w' = trace w @ cs \<and>
         (\<forall>v. LinkAdd v \<in> set cs \<longrightarrow>
            VxlanId v = (if Conf_VxlanID conf = 0 then 10 else Conf_VxlanID conf) \<and>
            MTU (LinkAttrs v) = (if Conf_MTU conf = 0 then 1500 else Conf_MTU conf)) \<and>
         (\<forall>n m a b. SetupVeth n m a b \<in> set cs \<longrightarrow>
            m = (if Conf_MTU conf = 0 then 1500 else Conf_MTU conf))))"
proof (intro conjI impI)
  assume "json_Unmarshal_conf P (StdinData args) = Some conf \<and>
    (Conf_HostInterface conf = [] \<or> Conf_Subnet conf = [] \<or> Conf_Gateway conf = [])"
  then show "cmdAdd P args w =
        Some (Inl (if Conf_HostInterface conf = [] then MissingHostInterface
                   else if Conf_Subnet conf = [] then MissingSubnet else MissingGateway), w)"
    by (auto simp: cmdAdd_def fail_with_def Let_def)
next
  assume a: "json_Unmarshal_conf P (StdinData args) = Some conf \<and> cmdAdd P args w = Some (r, w')"
  let ?vx = "if Conf_VxlanID conf = 0 then 10 else Conf_VxlanID conf"
  let ?mtu = "if Conf_MTU conf = 0 then 1500 else Conf_MTU conf"
  let ?conf = "conf\<lparr>Conf_VxlanID := ?vx, Conf_MTU := ?mtu\<rparr>"
  show "\<exists>cs. trace w' = trace w @ cs \<and>
         (\<forall>v. LinkAdd v \<in> set cs \<longrightarrow> VxlanId v = ?vx \<and> MTU (LinkAttrs v) = ?mtu) \<and>
         (\<forall>n m a b. SetupVeth n m a b \<in> set cs \<longrightarrow> m = ?mtu)"
  proof (cases "Conf_HostInterface conf = [] \<or> Conf_Subnet conf = [] \<or> Conf_Gateway conf = []")
    case True
    with a have "w' = w" by (auto simp: cmdAdd_def fail_with_def Let_def split: if_splits)
    then show ?thesis by simp
  next
    case False
    have "cmdAdd P args w = cmdAdd_attach P args ?conf w"
      using a False by (simp add: cmdAdd_def Let_def DefaultVxlanVNI_def DefaultMTU_def)
    with a have "cmdAdd_attach P args ?conf w = Some (r, w')" by simp
    from emitsD [OF emits_cmdAdd_attach this]
    obtain cs where cs: "trace w' = trace w @ cs" "list_all (uses_conf ?conf) cs" by blast
    from cs(2) have "\<forall>c \<in> set cs. uses_conf ?conf c" by (simp add: list_all_iff)
    then have "(\<forall>v. LinkAdd v \<in> set cs \<longrightarrow> VxlanId v = ?vx \<and> MTU (LinkAttrs v) = ?mtu) \<and>
         (\<forall>n m a b. SetupVeth n m a b \<in> set cs \<longrightarrow> m = ?mtu)"
      unfolding uses_conf_def by fastforce
    with cs(1) show ?thesis by blast
  qed
qed

theorem cmdAdd_validates_first_witness:
  "(json_Unmarshal_conf example_platform (StdinData (test_args\<lparr>StdinData := test_stdin_no_gateway\<rparr>)) =
      Some \<lparr>Conf_CNIVersion = ''1.0.0'', Conf_HostInterface = ''eth0'', Conf_VxlanID = 0, Conf_MTU = 0,
            Conf_Subnet = ''10.244.0.0/24'', Conf_Gateway = [], Conf_DataDir = ''/tmp/ipam-test''\<rparr> \<and>
    cmdAdd example_platform (test_args\<lparr>StdinData := test_stdin_no_gateway\<rparr>) empty_world =
      Some (Inl MissingGateway, empty_world)) \<and>
   (json_Unmarshal_conf example_platform (StdinData test_args) =
      Some \<lparr>Conf_CNIVersion = ''1.0.0'', Conf_HostInterface = ''eth0'', Conf_VxlanID = 0, Conf_MTU = 0,
            Conf_Subnet = ''10.244.0.0/24'', Conf_Gateway = ''10.244.0.1'', Conf_DataDir = ''/tmp/ipam-test''\<rparr> \<and>
    cmdAdd example_platform test_args empty_world \<noteq> None \<and>
    (\<exists>cs. trace (snd (the (cmdAdd example_platform test_args empty_world))) = trace empty_world @ cs \<and>
       (\<forall>v. LinkAdd v \<in> set cs \<longrightarrow> VxlanId v = 10 \<and> MTU (LinkAttrs v) = 1500) \<and>
       (\<forall>n m a b. SetupVeth n m a b \<in> set cs \<longrightarrow> m = 1500)) \<and>
    list_ex (\<lambda>c. case c of LinkAdd v \<Rightarrow> VxlanId v = 10 \<and> MTU (LinkAttrs v) = 1500 | _ \<Rightarrow> False)
      (trace (snd (the (cmdAdd example_platform test_args empty_world)))) \<and>
    SetupVeth ''eth0'' 1500 [] ''/var/run/netns/test'' \<in>
      set (trace (snd (the (cmdAdd example_platform test_args empty_world)))))"
proof -
  let ?c0 = "\<lparr>Conf_CNIVersion = ''1.0.0'', Conf_HostInterface = ''eth0'', Conf_VxlanID = 0, Conf_MTU = 0,
            Conf_Subnet = ''10.244.0.0/24'', Conf_Gateway = [], Conf_DataDir = ''/tmp/ipam-test''\<rparr>"
  let ?c1 = "\<lparr>Conf_CNIVersion = ''1.0.0'', Conf_HostInterface = ''eth0'', Conf_VxlanID = 0, Conf_MTU = 0,
            Conf_Subnet = ''10.244.0.0/24'', Conf_Gateway = ''10.244.0.1'', Conf_DataDir = ''/tmp/ipam-test''\<rparr>"
  let ?X = "cmdAdd example_platform test_args empty_world"
  note t = cmdAdd_validates_first [where P = example_platform and w = empty_world]
  have h0: "json_Unmarshal_conf example_platform (StdinData (test_args\<lparr>StdinData := test_stdin_no_gateway\<rparr>)) = Some ?c0"
    by code_simp
  have g0: "Conf_HostInterface ?c0 = [] \<or> Conf_Subnet ?c0 = [] \<or> Conf_Gateway ?c0 = []"
    by simp
  have c0: "cmdAdd example_platform (test_args\<lparr>StdinData := test_stdin_no_gateway\<rparr>) empty_world =
      Some (Inl MissingGateway, empty_world)"
    using t [THEN conjunct1, rule_format, OF conjI [OF h0 g0]] by simp
  have h1: "json_Unmarshal_conf example_platform (StdinData test_args) = Some ?c1"
    by code_simp
  have h2: "?X \<noteq> None"
    by code_simp
  then have h3: "?X = Some (fst (the ?X), snd (the ?X))"
    by (cases ?X) auto
  have c1: "\<exists>cs. trace (snd (the ?X)) = trace empty_world @ cs \<and>
       (\<forall>v. LinkAdd v \<in> set cs \<longrightarrow> VxlanId v = 10 \<and> MTU (LinkAttrs v) = 1500) \<and>
       (\<forall>n m a b. SetupVeth n m a b \<in> set cs \<longrightarrow> m = 1500)"
    using t [THEN conjunct2, rule_format, OF conjI [OF h1 h3]] by simp
  have e1: "list_ex (\<lambda>c. case c of LinkAdd v \<Rightarrow> VxlanId v = 10 \<and> MTU (LinkAttrs v) = 1500 | _ \<Rightarrow> False)
      (trace (snd (the ?X)))"
    by code_simp
  have e2: "SetupVeth ''eth0'' 1500 [] ''/var/run/netns/test'' \<in> set (trace (snd (the ?X)))"
    by code_simp
  from h0 c0 h1 h2 c1 e1 e2 show ?thesis by (intro conjI)
qed

section \<open>cmdDel\<close>

lemma Release_absent:
  "map_of (Allocations i) c = None \<Longrightarrow> Release P c i w = (None, i, w)"
  by (simp add: Release_def)

text \<open>
  \<open>cmdDel\<close> calls nothing but the directory creation and the file operations of the
  allocator and the deletion of the link named by the request: it does not look up or
  delete the tunnel device, as \<open>CleanupVxlan\<close> would.
\<close>

lemma cmdDel_never_cleans_up:
  assumes "cmdDel P args w = Some (r, w')"
  shows "\<exists>cs. trace w' = trace w @ cs \<and> (\<forall>c \<in> set cs. \<forall>n l. c \<noteq> LinkByName n \<and> c \<noteq> LinkDel l)"
proof -
  from emitsD [OF emits_cmdDel assms] obtain cs where "trace w' = trace w @ cs" "list_all del_call cs"
    by blast
  then show ?thesis by (auto simp: list_all_iff del_call_def)
qed

text \<open>The error of the link deletion is returned as it is, whatever it is.\<close>

lemma cmdDel_link_error:
  assumes "json_Unmarshal_conf P (StdinData args) = Some conf"
    and "New P \<lparr>Config_Subnet = Conf_Subnet conf, Config_Gateway = Conf_Gateway conf,
                Config_DataDir = Conf_DataDir conf\<rparr> w = (Inr i, w1)"
    and "Release P (ContainerID args) i w1 = (None, i', w2)"
    and "Netns args \<noteq> []"
    and "fault P (trace w2) (DelLinkByNameAddr (IfName args)) = Some m"
  shows "cmdDel P args w = Some (Inl (External m), record_call (DelLinkByNameAddr (IfName args)) w2)"
  using assms
  by (simp add: cmdDel_def andThen_def wrap_def ipam_New_def ipam_Release_def external_def perform_def)

text \<open>
  Claim C5, third part, on the code: the request is a DEL for a container that has no
  recorded address and whose link is no longer there. Releasing the address succeeds
  without touching the record file, and then \<open>cmdDel\<close> fails with the error of the
  link deletion.
\<close>

theorem cmdDel_fails_when_link_gone:
  "cmdDel link_gone test_args empty_world =
     Some (Inl (External ''link not found''),
           \<lparr>files = [],
            trace = [MkdirAll ''/tmp/ipam-test'', ReadFile ''/tmp/ipam-test/allocations.json'',
                     DelLinkByNameAddr ''eth0'']\<rparr>)"
  by code_simp

section \<open>Equality and containment of addresses\<close>



lemma Equal_sym: "Equal a b \<longleftrightarrow> Equal b a"
  by (auto simp: Equal_def)

lemma Equal_unique: "Equal x g \<Longrightarrow> Equal y g \<Longrightarrow> length x = length y \<Longrightarrow> x = y"
proof -
  assume a: "Equal x g" "Equal y g" "length x = length y"
  show "x = y"
  proof (cases "length x = length g")
    case True
    with a show ?thesis by (simp add: Equal_def)
  next
    case False
    with a have "(x = drop 12 g \<and> y = drop 12 g) \<or>
        (take 12 x = take 12 y \<and> drop 12 x = drop 12 y)"
      by (auto simp: Equal_def split: if_splits)
    then show ?thesis
      by (metis append_take_drop_id)
  qed
qed

lemma ip_val_Cons: "ip_val (x # xs) = unat x * 256 ^ length xs + ip_val xs"
proof (induction xs arbitrary: x rule: rev_induct)
  case Nil
  then show ?case by (simp add: ip_val_def)
next
  case (snoc y ys)
  have "ip_val (x # ys @ [y]) = 256 * ip_val (x # ys) + unat y"
    using ip_val_snoc [of "x # ys" y] by simp
  also have "\<dots> = 256 * (unat x * 256 ^ length ys + ip_val ys) + unat y"
    by (simp only: snoc.IH)
  finally show ?case by (simp add: algebra_simps)
qed




lemma length_CIDRMask [simp]: "length (CIDRMask ones l) = l"
  by (simp add: CIDRMask_def)


lemma cidr_simps [simp]:
  "Mask (cidr a ones) = CIDRMask ones (length a)"
  "length (IP (cidr a ones)) = length a"
  by (simp_all add: cidr_def Let_def)



text \<open>
  In a network with a prefix of at least one bit, an address whose first byte is
  \<^verbatim>\<open>0xff\<close> and an address whose first byte is \<^verbatim>\<open>0\<close> are never both inside.
\<close>

lemma byte_ff_and [simp]: "(0xff :: byte) AND w = w"
proof -
  have "(0xff :: byte) = - 1" by simp
  then show ?thesis by (simp only: and.left_neutral)
qed






section \<open>The scan of findAvailableIP\<close>

lemma length_skipGateway [simp]: "length (skipGateway i ip) = length ip"
  by (simp add: skipGateway_def)





lemma loop_free:
  "Contains (Subnet i) ip \<Longrightarrow> \<not> allocated (Allocations i) ip \<Longrightarrow>
   findAvailableIP_loop i ip = Some (Inr ip)"
  by (subst findAvailableIP_loop.simps) simp

lemma loop_next:
  "Contains (Subnet i) ip \<Longrightarrow> allocated (Allocations i) ip \<Longrightarrow>
   findAvailableIP_loop i ip = findAvailableIP_loop i (skipGateway i (inc ip))"
  by (subst findAvailableIP_loop.simps) simp



section \<open>Sequences of calls\<close>

lemma run_Cons:
  "run P (x # xs) i w =
     (case step P x i w of
        None \<Rightarrow> None
      | Some (r, i', w') \<Rightarrow>
          (case run P xs i' w' of
             None \<Rightarrow> None
           | Some (rs, i'', w'') \<Rightarrow> Some (r # rs, i'', w'')))"
  by (auto split: option.splits)

lemma run_ConsE:
  assumes "run P (x # xs) i w = Some (rs, i'', w'')"
  obtains r i' w' rs' where "step P x i w = Some (r, i', w')" "run P xs i' w' = Some (rs', i'', w'')"
    "rs = r # rs'"
  using assms unfolding run_Cons by (auto split: option.splits)

section \<open>What a returned address is, on any allocator\<close>

lemma inc_neq: "q \<noteq> [] \<Longrightarrow> inc q \<noteq> q"
proof
  assume q: "q \<noteq> []" and "inc q = q"
  then have "ip_val (inc q) = ip_val q" by simp
  then have e: "(ip_val q + 1) mod 256 ^ length q = ip_val q" by (simp add: ip_val_inc)
  from q have "(256::nat) ^ 1 \<le> 256 ^ length q"
    by (intro power_increasing) (simp_all add: Suc_le_eq)
  then have M: "(1::nat) < 256 ^ length q" by simp
  show False
  proof (cases "ip_val q + 1 < 256 ^ length q")
    case True
    with e show False by simp
  next
    case False
    with ip_val_bound [of q] have "ip_val q + 1 = 256 ^ length q" by simp
    with e M show False by simp
  qed
qed

lemma skipGateway_not_gateway:
  assumes "q \<noteq> []"
  shows "\<not> Equal (skipGateway i q) (Gateway i)"
proof (cases "Equal q (Gateway i)")
  case False
  then show ?thesis by (simp add: skipGateway_def)
next
  case True
  show ?thesis
  proof
    assume "Equal (skipGateway i q) (Gateway i)"
    with True have "Equal (inc q) (Gateway i)" by (simp add: skipGateway_def)
    from Equal_unique [OF this True] have "inc q = q" by simp
    with inc_neq [OF assms] show False by simp
  qed
qed

lemma inc_not_Nil [simp]: "inc q = [] \<longleftrightarrow> q = []"
  using length_inc [of q] by (metis length_0_conv)

lemma skipGateway_not_Nil [simp]: "skipGateway i q = [] \<longleftrightarrow> q = []"
  by (simp add: skipGateway_def)

lemma loop_result:
  assumes "findAvailableIP_loop i ip = Some r"
  shows "ip \<noteq> [] \<longrightarrow> \<not> Equal ip (Gateway i) \<longrightarrow>
         (\<forall>res. r = Inr res \<longrightarrow>
            Contains (Subnet i) res \<and> \<not> allocated (Allocations i) res \<and>
            \<not> Equal res (Gateway i) \<and> length res = length ip)"
proof (rule findAvailableIP_loop.raw_induct
    [where P = "\<lambda>i ip r. ip \<noteq> [] \<longrightarrow> \<not> Equal ip (Gateway i) \<longrightarrow>
         (\<forall>res. r = Inr res \<longrightarrow>
            Contains (Subnet i) res \<and> \<not> allocated (Allocations i) res \<and>
            \<not> Equal res (Gateway i) \<and> length res = length ip)", OF _ assms], goal_cases)
  case (1 loop i ip r)
  show ?case
  proof (intro impI allI)
    fix res
    assume ne: "ip \<noteq> []" and ng: "\<not> Equal ip (Gateway i)" and r: "r = Inr res"
    show "Contains (Subnet i) res \<and> \<not> allocated (Allocations i) res \<and>
            \<not> Equal res (Gateway i) \<and> length res = length ip"
    proof (cases "Contains (Subnet i) ip \<and> allocated (Allocations i) ip")
      case False
      with 1(2) r ne ng show ?thesis by (auto split: if_splits)
    next
      case True
      with 1(2) have "loop i (skipGateway i (inc ip)) = Some r" by simp
      from 1(1) [OF this] ne r skipGateway_not_gateway [of "inc ip" i]
      show ?thesis by simp
    qed
  qed
qed

lemma findAvailableIP_result:
  assumes "findAvailableIP i = Some (Inr res)" and "IP (Subnet i) \<noteq> []"
  shows "Contains (Subnet i) res \<and> \<not> allocated (Allocations i) res \<and>
         \<not> Equal res (Gateway i) \<and> length res = length (IP (Subnet i))"
  using loop_result [of i "skipGateway i (inc (IP (Subnet i)))" "Inr res"] assms
    skipGateway_not_gateway [of "inc (IP (Subnet i))" i]
  by (simp add: findAvailableIP_def)

section \<open>Uniqueness of the allocated addresses\<close>

lemma allocated_iff:
  "distinct (map fst al) \<Longrightarrow> allocated al ip \<longleftrightarrow> (\<exists>c a. map_of al c = Some a \<and> Equal ip a)"
  by (auto simp: allocated_def list_ex_iff)

lemma Allocate_cases:
  assumes "Allocate P c i w = Some (r, i', w')"
  obtains (recorded) ip where "map_of (Allocations i) c = Some ip" "r = Inr ip" "i' = i" "w' = w"
    | (exhausted) e where "map_of (Allocations i) c = None" "findAvailableIP i = Some (Inl e)"
        "r = Inl e" "i' = i" "w' = w"
    | (inserted) ip where "map_of (Allocations i) c = None" "findAvailableIP i = Some (Inr ip)"
        "i' = i\<lparr>Allocations := AList.update c ip (Allocations i)\<rparr>"
        "r = Inr ip \<or> (\<exists>e. r = Inl e \<and> fst (saveAllocations P i' w) = Some e)"
        "w' = snd (saveAllocations P i' w)"
  using assms
  by (auto simp: Allocate_def Let_def split: option.splits sum.splits prod.splits)

lemma Release_cases:
  assumes "Release P c i w = (r, i', w')"
  obtains (absent) "map_of (Allocations i) c = None" "r = None" "i' = i" "w' = w"
    | (removed) ip where "map_of (Allocations i) c = Some ip"
        "i' = i\<lparr>Allocations := AList.delete c (Allocations i)\<rparr>"
        "r = fst (saveAllocations P i' w)" "w' = snd (saveAllocations P i' w)"
  using assms
  by (auto simp: Release_def Let_def split: option.splits prod.splits)

lemma consistent_insert:
  assumes c: "consistent i" and f: "\<not> allocated (Allocations i) ip" "\<not> Equal ip (Gateway i)"
  shows "consistent (i\<lparr>Allocations := AList.update c ip (Allocations i)\<rparr>)"
proof -
  from c have d: "distinct (map fst (Allocations i))" by (simp add: consistent_def)
  from f(1) d have fresh: "\<not> Equal ip a" if "map_of (Allocations i) c' = Some a" for c' a
    using that by (auto simp: allocated_iff)
  then have fresh': "\<not> Equal a ip" if "map_of (Allocations i) c' = Some a" for c' a
    using that Equal_sym by blast
  show ?thesis
    unfolding consistent_def
    using c f(2) fresh fresh'
    by (auto simp: consistent_def distinct_update update_conv' split: if_splits)
qed

lemma consistent_delete:
  assumes "consistent i"
  shows "consistent (i\<lparr>Allocations := AList.delete c (Allocations i)\<rparr>)"
  using assms
  by (auto simp: consistent_def distinct_delete delete_conv' split: if_splits)

lemma step_consistent:
  assumes "step P x i w = Some (r, i', w')" and "IP (Subnet i) \<noteq> []" and "consistent i"
  shows "consistent i' \<and> Subnet i' = Subnet i \<and> Gateway i' = Gateway i"
proof (cases x)
  case (Alloc c)
  with assms(1) obtain r0 where a: "Allocate P c i w = Some (r0, i', w')"
    by (auto split: option.splits sum.splits)
  from a show ?thesis
  proof (cases rule: Allocate_cases)
    case (inserted ip)
    from findAvailableIP_result [OF inserted(2) assms(2)] assms(3) inserted(3)
    show ?thesis by (simp add: consistent_insert)
  qed (use assms(3) in simp_all)
next
  case (Rel c)
  with assms(1) obtain r0 where a: "Release P c i w = (r0, i', w')"
    by (auto split: option.splits prod.splits)
  from a show ?thesis
    by (cases rule: Release_cases) (use assms(3) in \<open>simp_all add: consistent_delete\<close>)
qed

lemma run_consistent:
  assumes "run P ops i w = Some (rs, i', w')" and "IP (Subnet i) \<noteq> []" and "consistent i"
  shows "consistent i' \<and> Subnet i' = Subnet i \<and> Gateway i' = Gateway i"
  using assms
proof (induction ops arbitrary: i w rs)
  case Nil
  then show ?case by simp
next
  case (Cons x xs)
  from Cons.prems(1) obtain r i1 w1 rs' where s: "step P x i w = Some (r, i1, w1)"
    and r: "run P xs i1 w1 = Some (rs', i', w')"
    by (rule run_ConsE)
  from step_consistent [OF s Cons.prems(2,3)]
  have "consistent i1" "Subnet i1 = Subnet i" "Gateway i1 = Gateway i" by simp_all
  with Cons.IH [OF r] Cons.prems(2) show ?case by simp
qed

lemma consistent_empty: "Allocations i = [] \<Longrightarrow> consistent i"
  by (simp add: consistent_def)


lemma step_Alloc_other:
  assumes "step P (Alloc c') i w = Some (r, i', w')" and "c \<noteq> c'"
  shows "map_of (Allocations i') c = map_of (Allocations i) c"
proof -
  from assms(1) obtain r0 where "Allocate P c' i w = Some (r0, i', w')"
    by (auto split: option.splits sum.splits)
  then show ?thesis
    by (cases rule: Allocate_cases) (use assms(2) in \<open>simp_all add: update_conv'\<close>)
qed

lemma step_Alloc_recorded:
  assumes "step P (Alloc c) i w = Some (Allocated a, i', w')"
  shows "map_of (Allocations i') c = Some a"
proof -
  from assms have "Allocate P c i w = Some (Inr a, i', w')"
    by (auto split: option.splits sum.splits)
  then show ?thesis
    by (cases rule: Allocate_cases) (simp_all add: update_conv')
qed

lemma run_Allocs_other:
  assumes "run P (map Alloc cs) i w = Some (rs, i', w')" and "c \<notin> set cs"
  shows "map_of (Allocations i') c = map_of (Allocations i) c"
  using assms
proof (induction cs arbitrary: i w rs)
  case Nil
  then show ?case by simp
next
  case (Cons c' cs)
  from Cons.prems(1) [unfolded list.map]
  obtain r i1 w1 rs' where s: "step P (Alloc c') i w = Some (r, i1, w1)"
    and r: "run P (map Alloc cs) i1 w1 = Some (rs', i', w')"
    by (rule run_ConsE)
  from Cons.prems(2) have "c \<noteq> c'" "c \<notin> set cs" by auto
  with Cons.IH [OF r] step_Alloc_other [OF s] show ?case by simp
qed

lemma run_Allocs_recorded:
  assumes "run P (map Alloc cs) i w = Some (rs, i', w')" and "distinct cs"
  shows "length rs = length cs \<and>
         (\<forall>j < length cs. \<forall>a. rs ! j = Allocated a \<longrightarrow> map_of (Allocations i') (cs ! j) = Some a)"
  using assms
proof (induction cs arbitrary: i w rs)
  case Nil
  then show ?case by simp
next
  case (Cons c cs)
  from Cons.prems(1) [unfolded list.map]
  obtain r i1 w1 rs' where s: "step P (Alloc c) i w = Some (r, i1, w1)"
    and r: "run P (map Alloc cs) i1 w1 = Some (rs', i', w')" and rs: "rs = r # rs'"
    by (rule run_ConsE)
  from Cons.prems(2) have d: "c \<notin> set cs" "distinct cs" by auto
  from Cons.IH [OF r d(2)] have IH: "length rs' = length cs"
    "\<And>j a. j < length cs \<Longrightarrow> rs' ! j = Allocated a \<Longrightarrow> map_of (Allocations i') (cs ! j) = Some a"
    by auto
  have "map_of (Allocations i') ((c # cs) ! j) = Some a"
    if j: "j < length (c # cs)" and a: "rs ! j = Allocated a" for j a
  proof (cases j)
    case 0
    with a rs s have "map_of (Allocations i1) c = Some a"
      by (auto intro: step_Alloc_recorded)
    with run_Allocs_other [OF r d(1)] 0 show ?thesis by simp
  next
    case (Suc j')
    with j a rs IH(2) [of j' a] show ?thesis by simp
  qed
  with IH(1) rs show ?case by simp
qed

text \<open>
  Claim C1. Start from an allocator with the empty mapping (for any subnet whose network
  number has at least one byte, as every network that \<^verbatim>\<open>ParseCIDR\<close> returns has) and make
  any sequence of \<open>Allocate\<close> and \<open>Release\<close> calls, with saves that succeed or fail. In the
  mapping it leaves, no two identifiers hold equal addresses and no identifier holds the
  gateway. If the calls were \<open>Allocate\<close> calls with pairwise distinct identifiers and each
  returned an address, no two of the returned addresses are equal and none is the
  gateway. Equality is that of \<^verbatim>\<open>net.IP.Equal\<close>, under which the 4-byte and the 16-byte
  form of an IPv4 address are equal.
\<close>

theorem allocations_unique:
  assumes "Allocations i = []" and "IP (Subnet i) \<noteq> []"
    and "run P ops i w = Some (rs, i', w')"
  shows "(\<forall>c1 c2 a1 a2. map_of (Allocations i') c1 = Some a1 \<and> map_of (Allocations i') c2 = Some a2 \<and>
            c1 \<noteq> c2 \<longrightarrow> \<not> Equal a1 a2) \<and>
         (\<forall>c a. map_of (Allocations i') c = Some a \<longrightarrow> \<not> Equal a (Gateway i)) \<and>
         (ops = map Alloc cs \<and> distinct cs \<and> rs = map Allocated as \<longrightarrow>
            (\<forall>j k. j < k \<and> k < length as \<longrightarrow> \<not> Equal (as ! j) (as ! k)) \<and>
            (\<forall>a \<in> set as. \<not> Equal a (Gateway i)))"
proof -
  from run_consistent [OF assms(3,2) consistent_empty [OF assms(1)]]
  have c: "consistent i'" and g: "Gateway i' = Gateway i" by simp_all
  from c have inj: "\<not> Equal a1 a2"
    if "map_of (Allocations i') c1 = Some a1" "map_of (Allocations i') c2 = Some a2" "c1 \<noteq> c2"
    for c1 c2 a1 a2
    using that unfolding consistent_def by blast
  from c g have nogw: "\<not> Equal a (Gateway i)" if "map_of (Allocations i') c = Some a" for c a
    using that unfolding consistent_def by auto
  have ret: "(\<forall>j k. j < k \<and> k < length as \<longrightarrow> \<not> Equal (as ! j) (as ! k)) \<and>
            (\<forall>a \<in> set as. \<not> Equal a (Gateway i))"
    if h: "ops = map Alloc cs" "distinct cs" "rs = map Allocated as"
  proof -
    from assms(3) h(1) have r: "run P (map Alloc cs) i w = Some (rs, i', w')" by simp
    from run_Allocs_recorded [OF r h(2)] h(3)
    have len: "length as = length cs"
      and rec: "\<And>j. j < length cs \<Longrightarrow> map_of (Allocations i') (cs ! j) = Some (as ! j)"
      by auto
    have "\<not> Equal (as ! j) (as ! k)" if "j < k" "k < length as" for j k
    proof -
      from that len h(2) have "cs ! j \<noteq> cs ! k" by (simp add: nth_eq_iff_index_eq)
      with rec [of j] rec [of k] that len show ?thesis by (intro inj) simp_all
    qed
    moreover have "\<not> Equal a (Gateway i)" if "a \<in> set as" for a
    proof -
      from that obtain j where "j < length as" "a = as ! j" by (auto simp: in_set_conv_nth)
      with rec [of j] len show ?thesis by (intro nogw) simp_all
    qed
    ultimately show ?thesis by blast
  qed
  from inj nogw ret show ?thesis by blast
qed

theorem allocations_unique_witness:
  "Allocations test_ipam = [] \<and> IP (Subnet test_ipam) \<noteq> [] \<and>
   map_option fst (run example_platform [Alloc ''c1'', Alloc ''c2''] test_ipam empty_world) =
     Some (map Allocated [[10, 244, 0, 2], [10, 244, 0, 3]]) \<and>
   \<not> Equal ([[10, 244, 0, 2], [10, 244, 0, 3]] ! 0) ([[10, 244, 0, 2], [10, 244, 0, 3]] ! 1) \<and>
   \<not> Equal [10, 244, 0, 2] (Gateway test_ipam) \<and> \<not> Equal [10, 244, 0, 3] (Gateway test_ipam)"
proof -
  let ?X = "run example_platform [Alloc ''c1'', Alloc ''c2''] test_ipam empty_world"
  let ?as = "[[10, 244, 0, 2], [10, 244, 0, 3]] :: IP list"
  have h1: "Allocations test_ipam = []" by code_simp
  have h2: "IP (Subnet test_ipam) \<noteq> []" by code_simp
  have h3: "map_option fst ?X = Some (map Allocated ?as)" by code_simp
  then obtain i' w' where h4: "?X = Some (map Allocated ?as, i', w')"
    by (cases ?X) auto
  have ops: "[Alloc ''c1'', Alloc ''c2''] = map Alloc [''c1'', ''c2''] \<and> distinct [''c1'', ''c2''] \<and>
      map Allocated ?as = map Allocated ?as"
    by simp
  from allocations_unique [OF h1 h2 h4, of "[''c1'', ''c2'']" ?as] ops
  have c: "(\<forall>j k. j < k \<and> k < length ?as \<longrightarrow> \<not> Equal (?as ! j) (?as ! k)) \<and>
      (\<forall>a \<in> set ?as. \<not> Equal a (Gateway test_ipam))"
    by blast
  from c [THEN conjunct1, rule_format, of 0 1] have "\<not> Equal (?as ! 0) (?as ! 1)" by simp
  moreover from c have "\<not> Equal [10, 244, 0, 2] (Gateway test_ipam)" "\<not> Equal [10, 244, 0, 3] (Gateway test_ipam)"
    by simp_all
  ultimately show ?thesis using h1 h2 h3 by blast
qed

section \<open>First fit\<close>

lemma first_free_unique:
  assumes "first_free i x" and "first_free i y"
  shows "x = y"
proof -
  have ne: "\<not> passed i x" "\<not> passed i y"
    using assms by (auto simp: first_free_def passed_def)
  have "\<not> ip_val x < ip_val y"
    using assms ne by (auto simp: first_free_def)
  moreover have "\<not> ip_val y < ip_val x"
    using assms ne by (auto simp: first_free_def)
  ultimately have "ip_val x = ip_val y" by simp
  moreover from assms have "length x = length y" by (simp add: first_free_def)
  ultimately show ?thesis by (intro ip_val_inj)
qed

lemma first_free_not_none_free:
  assumes "first_free i x"
  shows "\<not> none_free i"
proof
  assume n: "none_free i"
  have "Equal c (Gateway i) \<or> Contains (Subnet i) c"
    if "length c = length x" "ip_val (IP (Subnet i)) < ip_val c" "ip_val c \<le> ip_val x" for c
  proof (cases "ip_val c < ip_val x")
    case True
    with that assms have "passed i c" by (simp add: first_free_def)
    then show ?thesis by (auto simp: passed_def)
  next
    case False
    with that have "c = x" by (intro ip_val_inj) simp_all
    with assms show ?thesis by (simp add: first_free_def)
  qed
  with n assms have "passed i x"
    unfolding none_free_def first_free_def by blast
  with assms show False by (auto simp: first_free_def passed_def)
qed

section \<open>The mask of a prefix, in numbers\<close>

lemma CIDRMask_byte_eq: "CIDRMask_byte n = NOT (mask (8 - n))"
proof (cases "8 \<le> n")
  case True
  then show ?thesis by (simp add: CIDRMask_byte_def)
next
  case False
  then consider "n = 0" | "n = 1" | "n = 2" | "n = 3" | "n = 4" | "n = 5" | "n = 6" | "n = 7"
    by linarith
  then show ?thesis
    by cases (simp_all add: CIDRMask_byte_def mask_eq_exp_minus_1)
qed

lemma and_not_mask_eq: "(x :: byte) AND NOT (mask n) = push_bit n (drop_bit n x)"
  by (rule bit_eqI) (auto simp: bit_simps)

lemma unat_and_not_mask: "unat ((x :: byte) AND NOT (mask n)) = (unat x div 2 ^ n) * 2 ^ n"
proof -
  have le: "(unat x div 2 ^ n) * 2 ^ n \<le> unat x"
    by (rule div_times_less_eq_dividend)
  from le unat_byte [of x] have "(unat x div 2 ^ n) * 2 ^ n < 256" by (rule le_less_trans)
  then have lt: "(unat x div 2 ^ n) * 2 ^ n < 2 ^ 8" by simp
  have tb: "take_bit 8 (unat x) = unat x"
    using unat_byte [of x] by (simp add: take_bit_nat_eq_self)
  have "unat (push_bit n (drop_bit n x)) = take_bit 8 (push_bit n (drop_bit n (unat x)))"
    by (simp add: unsigned_push_bit_eq unsigned_drop_bit_eq tb)
  also have "push_bit n (drop_bit n (unat x)) = (unat x div 2 ^ n) * 2 ^ n"
    by (simp add: push_bit_eq_mult drop_bit_eq_div)
  also have "take_bit 8 ((unat x div 2 ^ n) * 2 ^ n) = (unat x div 2 ^ n) * 2 ^ n"
    using lt by (simp add: take_bit_nat_eq_self_iff)
  finally show ?thesis by (simp add: and_not_mask_eq)
qed

lemma byte_and_ff [simp]: "w AND (0xff :: byte) = w"
  using byte_ff_and [of w] by (simp only: and.commute)

lemma CIDRMask_Suc: "CIDRMask ones (Suc l) = CIDRMask_byte ones # CIDRMask (ones - 8) l"
proof -
  have "[0..<Suc l] = 0 # map Suc [0..<l]"
    by (simp add: upt_conv_Cons map_Suc_upt del: upt_Suc)
  then have "CIDRMask ones (Suc l) =
      CIDRMask_byte ones # map (\<lambda>j. CIDRMask_byte (ones - 8 * Suc j)) [0..<l]"
    unfolding CIDRMask_def by (simp add: comp_def del: upt_Suc)
  moreover have "ones - 8 * Suc j = ones - 8 - 8 * j" for j by simp
  ultimately show ?thesis by (simp add: CIDRMask_def)
qed


lemma ip_val_and_CIDRMask:
  "ip_val (and_mask xs (CIDRMask ones (length xs))) =
     (ip_val xs div 2 ^ (8 * length xs - ones)) * 2 ^ (8 * length xs - ones)"
proof (induction xs arbitrary: ones)
  case Nil
  then show ?case by (simp add: and_mask_def)
next
  case (Cons x xs)
  let ?l = "length xs"
  let ?v = "ip_val xs"
  have K: "(256::nat) ^ ?l = 2 ^ (8 * ?l)"
    by (simp add: power_mult)
  have vb: "?v < 2 ^ (8 * ?l)" using ip_val_bound [of xs] K by simp
  have unfold: "ip_val (and_mask (x # xs) (CIDRMask ones (length (x # xs)))) =
      unat (x AND CIDRMask_byte ones) * 2 ^ (8 * ?l) + ip_val (and_mask xs (CIDRMask (ones - 8) ?l))"
    by (simp add: CIDRMask_Suc and_mask_def ip_val_Cons K)
  show ?case
  proof (cases "8 \<le> ones")
    case True
    define k where "k = 8 * ?l - (ones - 8)"
    have k: "8 * length (x # xs) - ones = k" using True by (simp add: k_def)
    have kl: "k \<le> 8 * ?l" by (simp add: k_def)
    then have split: "(2::nat) ^ (8 * ?l) = 2 ^ (8 * ?l - k) * 2 ^ k"
      by (simp add: power_add [symmetric])
    have "ip_val (and_mask (x # xs) (CIDRMask ones (length (x # xs)))) =
        unat x * 2 ^ (8 * ?l) + (?v div 2 ^ k) * 2 ^ k"
      using True Cons.IH [of "ones - 8"] unfold by (simp add: CIDRMask_byte_def k_def)
    also have "\<dots> = (unat x * 2 ^ (8 * ?l - k) + ?v div 2 ^ k) * 2 ^ k"
      by (subst split) (simp add: algebra_simps)
    also have "unat x * 2 ^ (8 * ?l - k) + ?v div 2 ^ k = (unat x * 2 ^ (8 * ?l) + ?v) div 2 ^ k"
      by (subst split) (simp add: mult.assoc [symmetric])
    finally have "ip_val (and_mask (x # xs) (CIDRMask ones (length (x # xs)))) =
        (ip_val (x # xs) div 2 ^ k) * 2 ^ k"
      by (simp add: ip_val_Cons K)
    then show ?thesis unfolding k .
  next
    case False
    define n where "n = 8 - ones"
    have k: "8 * length (x # xs) - ones = 8 * ?l + n" using False by (simp add: n_def)
    from False have z: "ones - 8 = 0" by simp
    have rest: "ip_val (and_mask xs (CIDRMask (ones - 8) ?l)) = 0"
      using Cons.IH [of 0] vb by (simp add: z)
    have "ip_val (and_mask (x # xs) (CIDRMask ones (length (x # xs)))) =
        (unat x div 2 ^ n) * 2 ^ n * 2 ^ (8 * ?l)"
      using unfold rest by (simp add: CIDRMask_byte_eq unat_and_not_mask n_def)
    moreover have "(unat x * 2 ^ (8 * ?l) + ?v) div 2 ^ (8 * ?l + n) = unat x div 2 ^ n"
    proof -
      have "(unat x * 2 ^ (8 * ?l) + ?v) div 2 ^ (8 * ?l + n) =
          (unat x * 2 ^ (8 * ?l) + ?v) div 2 ^ (8 * ?l) div 2 ^ n"
        by (simp add: power_add div_mult2_eq)
      also have "(unat x * 2 ^ (8 * ?l) + ?v) div 2 ^ (8 * ?l) = unat x"
        using vb by simp
      finally show ?thesis .
    qed
    ultimately have "ip_val (and_mask (x # xs) (CIDRMask ones (length (x # xs)))) =
        (ip_val (x # xs) div 2 ^ (8 * ?l + n)) * 2 ^ (8 * ?l + n)"
      by (simp add: ip_val_Cons K power_add algebra_simps)
    then show ?thesis unfolding k .
  qed
qed


lemma IP_cidr: "IP (cidr a ones) = and_mask a (CIDRMask ones (length a))"
  by (simp add: cidr_def and_mask_def Let_def)

lemma length_and_mask [simp]: "length (and_mask xs m) = min (length xs) (length m)"
  by (simp add: and_mask_def)

lemma and_mask_nth: "j < length xs \<Longrightarrow> j < length m \<Longrightarrow> and_mask xs m ! j = xs ! j AND m ! j"
  by (simp add: and_mask_def)

lemma ip_val_net:
  "ip_val (IP (cidr a ones)) = (ip_val a div 2 ^ (8 * length a - ones)) * 2 ^ (8 * length a - ones)"
  by (simp add: IP_cidr ip_val_and_CIDRMask)

section \<open>IPv4 networks as ranges of numbers\<close>

lemma Contains_ipv4_bytes:
  assumes "length a = 4" and "length c = 4"
  shows "Contains (cidr a ones) c \<longleftrightarrow> and_mask c (CIDRMask ones 4) = IP (cidr a ones)"
proof -
  let ?m = "CIDRMask ones 4"
  have nm: "networkNumberAndMask (cidr a ones) = (and_mask a ?m, ?m)"
    using assms(1) by (simp add: networkNumberAndMask_def To4_def IP_cidr)
  have "Contains (cidr a ones) c \<longleftrightarrow> (\<forall>j < 4. (a ! j AND ?m ! j) AND ?m ! j = c ! j AND ?m ! j)"
    using assms by (auto simp: Contains_def nm To4_def list_all_iff and_mask_nth)
  also have "\<dots> \<longleftrightarrow> (\<forall>j < 4. and_mask c ?m ! j = and_mask a ?m ! j)"
    using assms by (auto simp: and_mask_nth and.assoc)
  also have "\<dots> \<longleftrightarrow> and_mask c ?m = and_mask a ?m"
    using assms by (auto simp: list_eq_iff_nth_eq)
  finally show ?thesis using assms(1) by (simp add: IP_cidr)
qed

lemma div_times_eq_iff: "0 < d \<Longrightarrow> (x div d) * d = (y div d) * d \<longleftrightarrow> x div d = (y::nat) div d"
  by simp

text \<open>
  An IPv4 network with prefix length \<open>ones\<close> contains exactly the 4-byte addresses that
  agree with it above the low \<open>32 - ones\<close> bits.
\<close>

lemma Contains_ipv4:
  assumes "length a = 4" and "length c = 4"
  shows "Contains (cidr a ones) c \<longleftrightarrow> ip_val c div 2 ^ (32 - ones) = ip_val a div 2 ^ (32 - ones)"
proof -
  let ?m = "CIDRMask ones 4"
  let ?k = "32 - ones"
  have "Contains (cidr a ones) c \<longleftrightarrow> and_mask c ?m = IP (cidr a ones)"
    by (rule Contains_ipv4_bytes [OF assms])
  also have "\<dots> \<longleftrightarrow> ip_val (and_mask c ?m) = ip_val (IP (cidr a ones))"
    using assms by (auto intro: ip_val_inj)
  also have "ip_val (and_mask c ?m) = (ip_val c div 2 ^ ?k) * 2 ^ ?k"
    using ip_val_and_CIDRMask [of c ones] assms(2) by simp
  also have "ip_val (IP (cidr a ones)) = (ip_val a div 2 ^ ?k) * 2 ^ ?k"
    using ip_val_net [of a ones] assms(1) by simp
  finally show ?thesis by simp
qed

lemma Contains_ipv4_range:
  assumes "length a = 4" and "length c = 4"
  shows "Contains (cidr a ones) c \<longleftrightarrow>
         ip_val (IP (cidr a ones)) \<le> ip_val c \<and> ip_val c < ip_val (IP (cidr a ones)) + 2 ^ (32 - ones)"
proof -
  define d where "d = (2::nat) ^ (32 - ones)"
  have d: "0 < d" by (simp add: d_def)
  have n: "ip_val (IP (cidr a ones)) = (ip_val a div d) * d"
    using ip_val_net [of a ones] assms(1) by (simp add: d_def)
  have "ip_val c div d = ip_val a div d \<longleftrightarrow>
      (ip_val a div d) * d \<le> ip_val c \<and> ip_val c < (ip_val a div d) * d + d"
  proof
    assume e: "ip_val c div d = ip_val a div d"
    have "(ip_val c div d) * d \<le> ip_val c" by (rule div_times_less_eq_dividend)
    moreover have "ip_val c < (ip_val c div d) * d + d"
      using d by (metis add.commute dividend_less_div_times mult.commute)
    ultimately show "(ip_val a div d) * d \<le> ip_val c \<and> ip_val c < (ip_val a div d) * d + d"
      by (simp add: e)
  next
    assume r: "(ip_val a div d) * d \<le> ip_val c \<and> ip_val c < (ip_val a div d) * d + d"
    then have "ip_val a div d \<le> ip_val c div d"
      using d by (metis div_le_mono div_mult_self_is_m)
    moreover from r have "ip_val c < (ip_val a div d + 1) * d" by (simp add: algebra_simps)
    then have "ip_val c div d < ip_val a div d + 1"
      using d by (simp add: less_mult_imp_div_less)
    ultimately show "ip_val c div d = ip_val a div d" by simp
  qed
  with Contains_ipv4 [OF assms, of ones] n show ?thesis by (simp add: d_def)
qed

section \<open>First fit, on any allocator\<close>

text \<open>
  One move of the scan below the first free address \<open>t\<close>: from an address \<open>p\<close> at or above
  the network address and below \<open>t\<close>, the next candidate is above \<open>p\<close>, at most \<open>t\<close>, and is
  not the gateway.
\<close>

lemma scan_towards:
  assumes t: "first_free i t"
    and p: "length p = length t" "ip_val p < ip_val t"
    and covered: "\<And>b. length b = length t \<Longrightarrow> ip_val (IP (Subnet i)) < ip_val b \<Longrightarrow>
                    ip_val b \<le> ip_val p \<Longrightarrow> passed i b"
  shows "length (skipGateway i (inc p)) = length t \<and> ip_val p < ip_val (skipGateway i (inc p)) \<and>
         ip_val (skipGateway i (inc p)) \<le> ip_val t \<and>
         \<not> Equal (skipGateway i (inc p)) (Gateway i) \<and>
         (\<forall>b. length b = length t \<and> ip_val (IP (Subnet i)) < ip_val b \<and>
              ip_val b < ip_val (skipGateway i (inc p)) \<longrightarrow> passed i b)"
proof -
  define M where "M = (256::nat) ^ length t"
  define nxt where "nxt = skipGateway i (inc p)"
  have tM: "ip_val t < M" using ip_val_bound [of t] by (simp add: M_def)
  have vinc: "ip_val (inc q) = (ip_val q + 1) mod M" if "length q = length t" for q
    using ip_val_inc [of q] that by (simp add: M_def)
  have lnxt: "length nxt = length t" by (simp add: nxt_def p(1))
  from t have tg: "\<not> Equal t (Gateway i)" by (simp add: first_free_def)
  from p(2) tM have v1: "ip_val (inc p) = ip_val p + 1" using vinc [OF p(1)] by simp
  show ?thesis
  proof (cases "Equal (inc p) (Gateway i)")
    case False
    then have n: "nxt = inc p" by (simp add: nxt_def skipGateway_def)
    have "passed i b" if b: "length b = length t" "ip_val (IP (Subnet i)) < ip_val b" "ip_val b < ip_val nxt" for b
      using b v1 n by (intro covered) simp_all
    with n v1 False lnxt p(2) show ?thesis unfolding nxt_def by simp
  next
    case gw: True
    then have n: "nxt = inc (inc p)" by (simp add: nxt_def skipGateway_def)
    from gw tg have "inc p \<noteq> t" by auto
    then have "ip_val (inc p) \<noteq> ip_val t" using ip_val_inj [of "inc p" t] p(1) by auto
    with v1 p(2) have lt: "ip_val p + 2 \<le> ip_val t" by simp
    with tM have v2: "ip_val nxt = ip_val p + 2" using n vinc [of "inc p"] v1 p(1) by simp
    have "\<not> Equal nxt (Gateway i)"
    proof
      assume "Equal nxt (Gateway i)"
      from Equal_unique [OF this gw] lnxt p(1) have "nxt = inc p" by simp
      with v1 v2 show False by simp
    qed
    moreover have "passed i b" if b: "length b = length t" "ip_val (IP (Subnet i)) < ip_val b" "ip_val b < ip_val nxt" for b
    proof (cases "ip_val b \<le> ip_val p")
      case True
      with b show ?thesis by (intro covered) simp_all
    next
      case False
      with b v2 v1 have "ip_val b = ip_val (inc p)" by simp
      with b(1) p(1) have "b = inc p" by (intro ip_val_inj) simp_all
      with gw show ?thesis by (simp add: passed_def)
    qed
    ultimately show ?thesis using v2 lt lnxt unfolding nxt_def by simp
  qed
qed

lemma loop_towards:
  assumes t: "first_free i t"
    and ip: "length ip = length t" "ip_val (IP (Subnet i)) < ip_val ip" "ip_val ip \<le> ip_val t"
      "\<not> Equal ip (Gateway i)"
  shows "findAvailableIP_loop i ip = Some (Inr t)"
  using ip
proof (induction "ip_val t - ip_val ip" arbitrary: ip rule: less_induct)
  case less
  show ?case
  proof (cases "ip_val ip = ip_val t")
    case True
    with less.prems(1) have "ip = t" by (intro ip_val_inj) simp_all
    with t loop_free [of i t] show ?thesis by (simp add: first_free_def)
  next
    case False
    with less.prems(3) have lt: "ip_val ip < ip_val t" by simp
    with t less.prems(1,2) have "passed i ip" by (simp add: first_free_def)
    with less.prems(4) have inside: "Contains (Subnet i) ip" and al: "allocated (Allocations i) ip"
      by (simp_all add: passed_def)
    let ?nxt = "skipGateway i (inc ip)"
    have covered: "passed i b"
      if b: "length b = length t" "ip_val (IP (Subnet i)) < ip_val b" "ip_val b \<le> ip_val ip" for b
      using t b lt by (simp add: first_free_def)
    from scan_towards [OF t less.prems(1) lt covered]
    have n: "length ?nxt = length t" "ip_val ip < ip_val ?nxt" "ip_val ?nxt \<le> ip_val t"
      "\<not> Equal ?nxt (Gateway i)"
      by simp_all
    from n(2,3) have m: "ip_val t - ip_val ?nxt < ip_val t - ip_val ip" by simp
    from n(2) less.prems(2) have "ip_val (IP (Subnet i)) < ip_val ?nxt" by simp
    from less.hyps [OF m n(1) this n(3) n(4)] loop_next [OF inside al]
    show ?thesis by simp
  qed
qed

text \<open>
  Whatever the subnet: when a first free address exists, \<open>findAvailableIP\<close> returns, and
  returns that address.
\<close>

lemma first_free_found:
  assumes t: "first_free i t"
  shows "findAvailableIP i = Some (Inr t)"
proof -
  let ?net = "IP (Subnet i)"
  let ?start = "skipGateway i (inc ?net)"
  from t have l: "length ?net = length t" and lt: "ip_val ?net < ip_val t"
    by (simp_all add: first_free_def)
  have covered: "passed i b"
    if "length b = length t" "ip_val ?net < ip_val b" "ip_val b \<le> ip_val ?net" for b
    using that by simp
  from scan_towards [OF t l lt covered]
  have n: "length ?start = length t" "ip_val ?net < ip_val ?start" "ip_val ?start \<le> ip_val t"
    "\<not> Equal ?start (Gateway i)"
    by simp_all
  from loop_towards [OF t n] show ?thesis by (simp add: findAvailableIP_def)
qed


text \<open>
  In an IPv4 subnet of any prefix length, among the addresses of the subnet above the
  network address that are neither the gateway nor in the mapping, the lowest is the
  first free address.
\<close>

lemma lowest_free_ipv4:
  assumes sub: "Subnet i = cidr a ones" and la: "length a = 4" and lb: "length b = 4"
    and b: "Contains (Subnet i) b" "b \<noteq> IP (Subnet i)" "\<not> Equal b (Gateway i)"
      "\<not> allocated (Allocations i) b"
  shows "\<exists>ip. first_free i ip \<and> ip_val ip \<le> ip_val b"
proof -
  let ?net = "IP (Subnet i)"
  let ?free = "\<lambda>x. length x = 4 \<and> ip_val ?net < ip_val x \<and> Contains (Subnet i) x \<and>
      \<not> Equal x (Gateway i) \<and> \<not> allocated (Allocations i) x"
  have lnet: "length ?net = 4" by (simp add: sub la)
  have range: "Contains (Subnet i) x \<longleftrightarrow>
      ip_val ?net \<le> ip_val x \<and> ip_val x < ip_val ?net + 2 ^ (32 - ones)" if "length x = 4" for x
    unfolding sub by (rule Contains_ipv4_range [OF la that])
  from b(2) lnet lb have "ip_val b \<noteq> ip_val ?net" using ip_val_inj [of b ?net] by auto
  with b(1) range [OF lb] have "ip_val ?net < ip_val b" by simp
  with b lb have "?free b" by simp
  from ex_has_least_nat [of ?free b ip_val, OF this]
  obtain x where x: "?free x" and least: "\<And>y. ?free y \<Longrightarrow> ip_val x \<le> ip_val y" by blast
  have "passed i c" if c: "length c = length x" "ip_val ?net < ip_val c" "ip_val c < ip_val x" for c
  proof (rule ccontr)
    assume np: "\<not> passed i c"
    from c x have lc: "length c = 4" by simp
    from x range [of x] have "ip_val x < ip_val ?net + 2 ^ (32 - ones)" by simp
    with c range [OF lc] have "Contains (Subnet i) c" by simp
    with np c lc have "?free c" by (simp add: passed_def)
    from least [OF this] c(3) show False by simp
  qed
  with x lnet have "first_free i x" by (simp add: first_free_def)
  moreover from least [OF \<open>?free b\<close>] have "ip_val x \<le> ip_val b" .
  ultimately show ?thesis by blast
qed

text \<open>
  Claim C3. Call an address the first free one of an allocator (\<open>first_free\<close>) when it
  lies above the network address, inside the subnet, is neither the gateway nor a value of
  the mapping, and every address between the network address and it is the gateway or an
  address of the subnet in the mapping: the address at which a scan from the network
  address plus one, in increasing order and skipping the gateway, first finds nothing
  recorded. There is at most one. Whatever the subnet (any family, any prefix length)
  and whatever the mapping, when the identifier has no record and \<open>ip\<close> is the first free
  address, \<open>Allocate\<close> returns: it records \<open>ip\<close> for the identifier and returns \<open>ip\<close>, or
  the error of the save. In an IPv4 subnet of any prefix length, 0 included, a first free
  address exists as soon as some address of the subnet other than the network address and
  the gateway is not in the mapping, and it is at most that address. In the scenario of
  the specification the calls return 10.244.0.2, 10.244.0.3, and, after the release of
  the first, 10.244.0.2 again; on \<^verbatim>\<open>0.0.0.0/0\<close> with the gateway \<^verbatim>\<open>0.0.0.1\<close> they return
  0.0.0.2, 0.0.0.3 and 0.0.0.2.
\<close>

theorem Allocate_first_fit:
  "(map_of (Allocations i) c = None \<and> first_free i ip \<longrightarrow>
      (\<forall>ip'. first_free i ip' \<longrightarrow> ip' = ip) \<and>
      (\<exists>r w'. Allocate P c i w = Some (r, i\<lparr>Allocations := AList.update c ip (Allocations i)\<rparr>, w') \<and>
          (r = Inr ip \<or>
           (\<exists>e. r = Inl e \<and>
                fst (saveAllocations P (i\<lparr>Allocations := AList.update c ip (Allocations i)\<rparr>) w) = Some e)))) \<and>
   (Subnet i = cidr a ones \<and> length a = 4 \<and> length b = 4 \<and> Contains (Subnet i) b \<and>
    b \<noteq> IP (Subnet i) \<and> \<not> Equal b (Gateway i) \<and> \<not> allocated (Allocations i) b \<longrightarrow>
      (\<exists>ip. first_free i ip \<and> ip_val ip \<le> ip_val b)) \<and>
   map_option fst
     (run example_platform [Alloc ''c1'', Alloc ''c2'', Rel ''c1'', Alloc ''c3''] test_ipam empty_world) =
     Some [Allocated [10, 244, 0, 2], Allocated [10, 244, 0, 3], Released, Allocated [10, 244, 0, 2]] \<and>
   map_option fst
     (run example_platform [Alloc ''c1'', Alloc ''c2'', Rel ''c1'', Alloc ''c3''] wide_ipam empty_world) =
     Some [Allocated [0, 0, 0, 2], Allocated [0, 0, 0, 3], Released, Allocated [0, 0, 0, 2]]"
proof (intro conjI impI)
  assume h: "map_of (Allocations i) c = None \<and> first_free i ip"
  then have c: "map_of (Allocations i) c = None" and f: "first_free i ip" by simp_all
  show "\<forall>ip'. first_free i ip' \<longrightarrow> ip' = ip"
    using first_free_unique [OF _ f] by blast
  let ?i' = "i\<lparr>Allocations := AList.update c ip (Allocations i)\<rparr>"
  obtain r0 w' where s: "saveAllocations P ?i' w = (r0, w')" by (cases "saveAllocations P ?i' w")
  define r where "r = (case r0 of None \<Rightarrow> Inr ip | Some e \<Rightarrow> Inl e)"
  from c first_free_found [OF f] s have "Allocate P c i w = Some (r, ?i', w')"
    by (simp add: Allocate_def Let_def r_def split: option.splits)
  moreover have "r = Inr ip \<or> (\<exists>e. r = Inl e \<and> fst (saveAllocations P ?i' w) = Some e)"
    using s by (cases r0) (simp_all add: r_def)
  ultimately show "\<exists>r w'. Allocate P c i w = Some (r, ?i', w') \<and>
      (r = Inr ip \<or> (\<exists>e. r = Inl e \<and> fst (saveAllocations P ?i' w) = Some e))"
    by blast
next
  assume "Subnet i = cidr a ones \<and> length a = 4 \<and> length b = 4 \<and> Contains (Subnet i) b \<and>
    b \<noteq> IP (Subnet i) \<and> \<not> Equal b (Gateway i) \<and> \<not> allocated (Allocations i) b"
  then show "\<exists>ip. first_free i ip \<and> ip_val ip \<le> ip_val b"
    using lowest_free_ipv4 [of i a ones b] by blast
next
  show "map_option fst
     (run example_platform [Alloc ''c1'', Alloc ''c2'', Rel ''c1'', Alloc ''c3''] test_ipam empty_world) =
     Some [Allocated [10, 244, 0, 2], Allocated [10, 244, 0, 3], Released, Allocated [10, 244, 0, 2]]"
    by code_simp
next
  show "map_option fst
     (run example_platform [Alloc ''c1'', Alloc ''c2'', Rel ''c1'', Alloc ''c3''] wide_ipam empty_world) =
     Some [Allocated [0, 0, 0, 2], Allocated [0, 0, 0, 3], Released, Allocated [0, 0, 0, 2]]"
    by code_simp
qed


theorem Allocate_first_fit_witness:
  "(Subnet busy_ipam = cidr [10, 244, 0, 0] 24 \<and> length [10, 244, 0, 0 :: byte] = 4 \<and>
    length [10, 244, 0, 4 :: byte] = 4 \<and> Contains (Subnet busy_ipam) [10, 244, 0, 4] \<and>
    [10, 244, 0, 4] \<noteq> IP (Subnet busy_ipam) \<and> \<not> Equal [10, 244, 0, 4] (Gateway busy_ipam) \<and>
    \<not> allocated (Allocations busy_ipam) [10, 244, 0, 4] \<and>
    map_of (Allocations busy_ipam) ''c3'' = None \<and>
    first_free busy_ipam [10, 244, 0, 4] \<and>
    map_option fst (Allocate example_platform ''c3'' busy_ipam empty_world) = Some (Inr [10, 244, 0, 4])) \<and>
   (Subnet wide_busy_ipam = cidr [0, 0, 0, 0] 0 \<and> length [0, 0, 0, 0 :: byte] = 4 \<and>
    length [0, 0, 0, 3 :: byte] = 4 \<and> Contains (Subnet wide_busy_ipam) [0, 0, 0, 3] \<and>
    [0, 0, 0, 3] \<noteq> IP (Subnet wide_busy_ipam) \<and> \<not> Equal [0, 0, 0, 3] (Gateway wide_busy_ipam) \<and>
    \<not> allocated (Allocations wide_busy_ipam) [0, 0, 0, 3] \<and>
    map_of (Allocations wide_busy_ipam) ''c2'' = None \<and>
    first_free wide_busy_ipam [0, 0, 0, 3] \<and>
    map_option fst (Allocate example_platform ''c2'' wide_busy_ipam empty_world) = Some (Inr [0, 0, 0, 3]))"
proof (intro conjI)
  let ?i = busy_ipam and ?b = "[10, 244, 0, 4] :: IP"
  show h1: "Subnet ?i = cidr [10, 244, 0, 0] 24" by code_simp
  show h2: "length [10, 244, 0, 0 :: byte] = 4" by simp
  show h3: "length ?b = 4" by simp
  show h4: "Contains (Subnet ?i) ?b" by code_simp
  show h5: "?b \<noteq> IP (Subnet ?i)" by code_simp
  show h6: "\<not> Equal ?b (Gateway ?i)" by code_simp
  show h7: "\<not> allocated (Allocations ?i) ?b" by code_simp
  show h8: "map_of (Allocations ?i) ''c3'' = None" by code_simp
  have e: "map_option (\<lambda>(r, i', w'). (r, Allocations i')) (Allocate example_platform ''c3'' ?i empty_world) =
      Some (Inr ?b, [(''c1'', [10, 244, 0, 2]), (''c2'', [10, 244, 0, 3]), (''c3'', ?b)])"
    by code_simp
  have u: "Allocations ?i = [(''c1'', [10, 244, 0, 2]), (''c2'', [10, 244, 0, 3])]" by code_simp
  from Allocate_first_fit [where i = ?i and a = "[10, 244, 0, 0]" and ones = 24 and b = ?b,
      THEN conjunct2, THEN conjunct1, rule_format,
      OF conjI [OF h1 conjI [OF h2 conjI [OF h3 conjI [OF h4 conjI [OF h5 conjI [OF h6 h7]]]]]]]
  obtain ip where f: "first_free ?i ip" by blast
  from Allocate_first_fit [where i = ?i and c = "''c3''" and ip = ip and P = example_platform
      and w = empty_world, THEN conjunct1, rule_format, OF conjI [OF h8 f]]
  obtain r w' where
    "Allocate example_platform ''c3'' ?i empty_world =
       Some (r, ?i\<lparr>Allocations := AList.update ''c3'' ip (Allocations ?i)\<rparr>, w')"
    by blast
  with e have "AList.update ''c3'' ip (Allocations ?i) =
      [(''c1'', [10, 244, 0, 2]), (''c2'', [10, 244, 0, 3]), (''c3'', ?b)]"
    by simp
  then have "ip = ?b" unfolding u by simp
  with f show "first_free ?i ?b" by simp
  from e show "map_option fst (Allocate example_platform ''c3'' ?i empty_world) = Some (Inr ?b)"
    by (cases "Allocate example_platform ''c3'' ?i empty_world") auto
next
  let ?i = wide_busy_ipam and ?b = "[0, 0, 0, 3] :: IP"
  show h1: "Subnet ?i = cidr [0, 0, 0, 0] 0" by code_simp
  show h2: "length [0, 0, 0, 0 :: byte] = 4" by simp
  show h3: "length ?b = 4" by simp
  show h4: "Contains (Subnet ?i) ?b" by code_simp
  show h5: "?b \<noteq> IP (Subnet ?i)" by code_simp
  show h6: "\<not> Equal ?b (Gateway ?i)" by code_simp
  show h7: "\<not> allocated (Allocations ?i) ?b" by code_simp
  show h8: "map_of (Allocations ?i) ''c2'' = None" by code_simp
  have e: "map_option (\<lambda>(r, i', w'). (r, Allocations i')) (Allocate example_platform ''c2'' ?i empty_world) =
      Some (Inr ?b, [(''c1'', [0, 0, 0, 2]), (''c2'', ?b)])"
    by code_simp
  have u: "Allocations ?i = [(''c1'', [0, 0, 0, 2])]" by code_simp
  from Allocate_first_fit [where i = ?i and a = "[0, 0, 0, 0]" and ones = 0 and b = ?b,
      THEN conjunct2, THEN conjunct1, rule_format,
      OF conjI [OF h1 conjI [OF h2 conjI [OF h3 conjI [OF h4 conjI [OF h5 conjI [OF h6 h7]]]]]]]
  obtain ip where f: "first_free ?i ip" by blast
  from Allocate_first_fit [where i = ?i and c = "''c2''" and ip = ip and P = example_platform
      and w = empty_world, THEN conjunct1, rule_format, OF conjI [OF h8 f]]
  obtain r w' where
    "Allocate example_platform ''c2'' ?i empty_world =
       Some (r, ?i\<lparr>Allocations := AList.update ''c2'' ip (Allocations ?i)\<rparr>, w')"
    by blast
  with e have "AList.update ''c2'' ip (Allocations ?i) = [(''c1'', [0, 0, 0, 2]), (''c2'', ?b)]"
    by simp
  then have "ip = ?b" unfolding u by simp
  with f show "first_free ?i ?b" by simp
  from e show "map_option fst (Allocate example_platform ''c2'' ?i empty_world) = Some (Inr ?b)"
    by (cases "Allocate example_platform ''c2'' ?i empty_world") auto
qed

section \<open>Exhaustion\<close>










lemma small_ipam_New: "fst (New example_platform small_config empty_world) = Inr small_ipam"
  by code_simp

lemma ip_val_4: "ip_val [w, x, y, z] = ((unat w * 256 + unat x) * 256 + unat y) * 256 + unat z"
  by (simp add: ip_val_def)





section \<open>The whole address space as a subnet\<close>

declare decimal.simps [simp del]

lemma length_addr [simp]: "length (addr l n) = l"
  by (induction l arbitrary: n) simp_all




lemma decimal_not_Nil: "decimal n \<noteq> []"
  by (subst decimal.simps) simp

lemma digit_inj: "m < 10 \<Longrightarrow> n < 10 \<Longrightarrow> digit m = digit n \<Longrightarrow> m = n"
proof -
  assume a: "m < 10" "n < 10" "digit m = digit n"
  then have "of_char (char_of (48 + m) :: char) = (of_char (char_of (48 + n) :: char) :: nat)"
    by (simp add: digit_def)
  with a(1,2) show "m = n" by (simp add: of_char_of)
qed

lemma decimal_inj: "decimal m = decimal n \<Longrightarrow> m = n"
proof (induction m arbitrary: n rule: decimal.induct)
  case (1 m)
  show ?case
  proof (cases "m < 10")
    case True
    with "1.prems" have e: "[digit m] = decimal n" by (subst (asm) decimal.simps) simp
    have "n < 10"
    proof (rule ccontr)
      assume "\<not> n < 10"
      with e have "[digit m] = decimal (n div 10) @ [digit (n mod 10)]"
        by (subst (asm) decimal.simps) simp
      then show False using decimal_not_Nil [of "n div 10"] by simp
    qed
    with e have "digit m = digit n" by (subst (asm) decimal.simps) simp
    with True \<open>n < 10\<close> show ?thesis by (rule digit_inj)
  next
    case False
    with "1.prems" have e: "decimal (m div 10) @ [digit (m mod 10)] = decimal n"
      by (subst (asm) decimal.simps) simp
    have n: "\<not> n < 10"
    proof
      assume "n < 10"
      with e have "decimal (m div 10) @ [digit (m mod 10)] = [digit n]"
        by (subst (asm) (2) decimal.simps) simp
      then show False using decimal_not_Nil [of "m div 10"] by simp
    qed
    with e have "decimal (m div 10) @ [digit (m mod 10)] = decimal (n div 10) @ [digit (n mod 10)]"
      by (subst (asm) (2) decimal.simps) simp
    then have "decimal (m div 10) = decimal (n div 10)" "digit (m mod 10) = digit (n mod 10)"
      by simp_all
    with "1.IH" [OF False, of "n div 10"] digit_inj [of "m mod 10" "n mod 10"]
    have "m div 10 = n div 10" "m mod 10 = n mod 10" by simp_all
    then show ?thesis by (metis div_mult_mod_eq)
  qed
qed

lemma ident_inj [simp]: "ident m = ident n \<longleftrightarrow> m = n"
  by (auto simp: ident_def dest: decimal_inj)


lemma plain_append [simp]: "plain (xs @ ys) \<longleftrightarrow> plain xs \<and> plain ys"
  by (simp add: plain_def)

lemma plain_Cons [simp]: "plain (CHR ''.'' # xs) \<longleftrightarrow> plain xs" "plain (CHR ''c'' # xs) \<longleftrightarrow> plain xs"
  by (simp_all add: plain_def)








lemma wide_taken_simps [simp]:
  "Subnet (wide_taken k) = cidr [0, 0, 0, 0] 0"
  "IP (cidr [0, 0, 0, 0] 0) = [0, 0, 0, 0]"
  "Gateway (wide_taken k) = v4InV6Prefix @ [0, 0, 0, 1]"
  "Allocations (wide_taken k) = taken k"
  by (simp_all add: wide_taken_def wide_ipam_def cidr_def CIDRMask_def CIDRMask_byte_def Let_def)

lemma ip_val_small [simp]:
  "ip_val [0, 0, 0, 0] = 0" "ip_val [0, 0, 0, 1] = 1" "ip_val [0, 0, 0, 2] = 2"
  by (simp_all add: ip_val_4)










lemma wide_taken_update:
  "(wide_taken k)\<lparr>Allocations := al\<rparr> = wide_ipam\<lparr>Allocations := al\<rparr>"
  by (simp add: wide_taken_def)



















section \<open>The last address of an IPv4 subnet\<close>





section \<open>Where a returned address lies\<close>






section \<open>The last address of 10.244.0.0/24\<close>




















section \<open>Saving and loading again\<close>

lemma load_entries_map_of:
  assumes "\<And>c s. (c, s) \<in> set kvs \<Longrightarrow> \<exists>a. ParseIP P s = Some a" and "distinct (map fst kvs)"
  shows "\<exists>al. load_entries P kvs acc = (None, al) \<and>
           (\<forall>c. map_of al c = (case map_of kvs c of None \<Rightarrow> map_of acc c | Some s \<Rightarrow> ParseIP P s))"
  using assms
proof (induction kvs arbitrary: acc)
  case Nil
  then show ?case by simp
next
  case (Cons x kvs)
  obtain c s where x: "x = (c, s)" by (cases x)
  from Cons.prems(1) [of c s] obtain a where a: "ParseIP P s = Some a" by (auto simp: x)
  from Cons.prems(2) have d: "distinct (map fst kvs)" and n: "map_of kvs c = None"
    by (auto simp: x map_of_eq_None_iff)
  from Cons.IH [OF _ d, of "AList.update c a acc"] Cons.prems(1)
  obtain al where l: "load_entries P kvs (AList.update c a acc) = (None, al)"
    and m: "\<And>c'. map_of al c' =
      (case map_of kvs c' of None \<Rightarrow> map_of (AList.update c a acc) c' | Some s \<Rightarrow> ParseIP P s)"
    by auto
  have "load_entries P (x # kvs) acc = (None, al)" by (simp add: x a l)
  moreover have "map_of al c' =
      (case map_of (x # kvs) c' of None \<Rightarrow> map_of acc c' | Some s \<Rightarrow> ParseIP P s)" for c'
    using m [of c'] n a by (auto simp: x update_conv' split: option.splits)
  ultimately show ?case by blast
qed


text \<open>
  Claim C6. Let an allocator save its mapping without error, and let \<open>New\<close> then be called
  for a configuration with the same data directory (whose subnet and gateway parse), the
  directory call and the read of the record file succeeding. Suppose the libraries do
  what the claim says of them on this mapping: the JSON decoder gives back the object that
  the encoder was given (one entry per key, by key the same texts), and the text of every
  recorded address parses to an address equal to it. Then \<open>New\<close> returns an allocator whose
  mapping has the same identifiers, each bound to an address equal (\<^verbatim>\<open>net.IP.Equal\<close>) to
  the one it had.
\<close>

theorem persistence_round_trip:
  assumes "ParseCIDR P (Config_Subnet cfg) = Some n" and "ParseIP P (Config_Gateway cfg) = Some g"
    and "dataDir i = (if Config_DataDir cfg = [] then ''/var/lib/cni/xvm-cni'' else Config_DataDir cfg)"
    and "saveAllocations P i w = (None, w1)"
    and "json_Marshal P (map (\<lambda>(cid, ip). (cid, IP_String P ip)) (Allocations i)) = Some d"
    and "json_Unmarshal P d = Some kvs'" and "distinct (map fst kvs')"
    and "map_of kvs' = map_of (map (\<lambda>(cid, ip). (cid, IP_String P ip)) (Allocations i))"
    and "\<forall>(c, a) \<in> set (Allocations i). \<exists>a'. ParseIP P (IP_String P a) = Some a' \<and> Equal a a'"
    and "fault P (trace w1) (MkdirAll (dataDir i)) = None"
    and "fault P (trace w1 @ [MkdirAll (dataDir i)]) (ReadFile (allocations_file P i)) = None"
  shows "\<exists>i2 w2. New P cfg w1 = (Inr i2, w2) \<and>
           Subnet i2 = n \<and> Gateway i2 = g \<and> dataDir i2 = dataDir i \<and>
           (\<forall>c. (map_of (Allocations i2) c = None \<longleftrightarrow> map_of (Allocations i) c = None) \<and>
                (\<forall>a. map_of (Allocations i) c = Some a \<longrightarrow>
                     (\<exists>a'. map_of (Allocations i2) c = Some a' \<and> Equal a a')))"
proof -
  let ?kvs = "map (\<lambda>(cid, ip). (cid, IP_String P ip)) (Allocations i)"
  let ?file = "allocations_file P i"
  let ?dir = "dataDir i"
  let ?i0 = "\<lparr>Subnet = n, Gateway = g, Allocations = [], dataDir = ?dir\<rparr>"
  let ?w = "record_call (MkdirAll ?dir) w1"
  \<comment> \<open>the save has put the record into the file\<close>
  from assms(4,5) have "os_WriteFile P ?file d w = (None, w1)"
    by (auto simp: saveAllocations_def Let_def split: prod.splits option.splits)
  then have "w1 = record_call (WriteFile ?file d) (w\<lparr>files := AList.update ?file d (files w)\<rparr>)"
    by (auto simp: os_WriteFile_def split: option.splits)
  then have on_disk: "map_of (files ?w) ?file = Some d"
    by (simp add: record_call_def update_conv')
  \<comment> \<open>every decoded text parses, to an address equal to the recorded one\<close>
  have look: "map_of ?kvs c = map_option (IP_String P) (map_of (Allocations i) c)" for c
    by (simp add: map_of_map)
  have parses: "\<exists>a. ParseIP P s = Some a" if "(c, s) \<in> set kvs'" for c s
  proof -
    from that assms(7) have "map_of kvs' c = Some s" by simp
    with assms(8) look [of c] obtain a where a: "map_of (Allocations i) c = Some a" "s = IP_String P a"
      by auto
    from a(1) have "(c, a) \<in> set (Allocations i)" by (rule map_of_SomeD)
    with assms(9) a(2) show ?thesis by auto
  qed
  have "\<exists>al. load_entries P kvs' [] = (None, al) \<and>
      (\<forall>c. map_of al c = (case map_of kvs' c of None \<Rightarrow> map_of [] c | Some s \<Rightarrow> ParseIP P s))"
  proof (rule load_entries_map_of)
    fix c s assume "(c, s) \<in> set kvs'"
    then show "\<exists>a. ParseIP P s = Some a" by (rule parses)
  qed (rule assms(7))
  then obtain al where le: "load_entries P kvs' [] = (None, al)"
    and al0: "\<And>c. map_of al c = (case map_of kvs' c of None \<Rightarrow> map_of [] c | Some s \<Rightarrow> ParseIP P s)"
    by blast
  have al: "map_of al c = (case map_of kvs' c of None \<Rightarrow> None | Some s \<Rightarrow> ParseIP P s)" for c
    using al0 [of c] by (simp split: option.splits)
  \<comment> \<open>\<open>New\<close> loads it\<close>
  have f: "allocations_file P ?i0 = ?file" by (simp add: allocations_file_def)
  have "loadAllocations P ?i0 ?w =
      (None, ?i0\<lparr>Allocations := al\<rparr>, record_call (ReadFile ?file) ?w)"
    using assms(6,11) on_disk le
    by (simp add: loadAllocations_def os_ReadFile_def f record_call_def)
  from New_after_mkdir [OF assms(1,2,3) assms(10) this]
  have new: "New P cfg w1 = (Inr (?i0\<lparr>Allocations := al\<rparr>), record_call (ReadFile ?file) ?w)"
    by simp
  have "(map_of al c = None \<longleftrightarrow> map_of (Allocations i) c = None) \<and>
        (\<forall>a. map_of (Allocations i) c = Some a \<longrightarrow> (\<exists>a'. map_of al c = Some a' \<and> Equal a a'))" for c
  proof (cases "map_of (Allocations i) c")
    case None
    with look [of c] assms(8) al [of c] show ?thesis by simp
  next
    case (Some a)
    then have "(c, a) \<in> set (Allocations i)" by (rule map_of_SomeD)
    with assms(9) obtain a' where "ParseIP P (IP_String P a) = Some a'" "Equal a a'" by auto
    with Some look [of c] assms(8) al [of c] show ?thesis by simp
  qed
  with new show ?thesis by simp
qed


theorem persistence_round_trip_witness:
  "ParseCIDR example_platform (Config_Subnet test_config) = Some (Subnet test_ipam) \<and>
   ParseIP example_platform (Config_Gateway test_config) = Some (Gateway test_ipam) \<and>
   dataDir busy_ipam =
     (if Config_DataDir test_config = [] then ''/var/lib/cni/xvm-cni'' else Config_DataDir test_config) \<and>
   fst (saveAllocations example_platform busy_ipam empty_world) = None \<and>
   json_Unmarshal example_platform
     (the (json_Marshal example_platform
        (map (\<lambda>(cid, ip). (cid, IP_String example_platform ip)) (Allocations busy_ipam)))) =
     Some (map (\<lambda>(cid, ip). (cid, IP_String example_platform ip)) (Allocations busy_ipam)) \<and>
   distinct (map fst (map (\<lambda>(cid, ip). (cid, IP_String example_platform ip)) (Allocations busy_ipam))) \<and>
   Allocations busy_ipam = [(''c1'', [10, 244, 0, 2]), (''c2'', [10, 244, 0, 3])] \<and>
   ParseIP example_platform (IP_String example_platform [10, 244, 0, 2]) = Some (v4InV6Prefix @ [10, 244, 0, 2]) \<and>
   Equal [10, 244, 0, 2] (v4InV6Prefix @ [10, 244, 0, 2]) \<and>
   ParseIP example_platform (IP_String example_platform [10, 244, 0, 3]) = Some (v4InV6Prefix @ [10, 244, 0, 3]) \<and>
   Equal [10, 244, 0, 3] (v4InV6Prefix @ [10, 244, 0, 3]) \<and>
   (case fst (New example_platform test_config (snd (saveAllocations example_platform busy_ipam empty_world))) of
      Inl e \<Rightarrow> False
    | Inr i2 \<Rightarrow>
        Subnet i2 = Subnet test_ipam \<and> Gateway i2 = Gateway test_ipam \<and>
        (\<exists>a'. map_of (Allocations i2) ''c1'' = Some a' \<and> Equal [10, 244, 0, 2] a') \<and>
        (\<exists>a'. map_of (Allocations i2) ''c2'' = Some a' \<and> Equal [10, 244, 0, 3] a') \<and>
        map_of (Allocations i2) ''c3'' = None) \<and>
   map_option Allocations
     (case fst (New example_platform test_config (snd (saveAllocations example_platform busy_ipam empty_world))) of
        Inl e \<Rightarrow> None | Inr i2 \<Rightarrow> Some i2) =
     Some [(''c1'', v4InV6Prefix @ [10, 244, 0, 2]), (''c2'', v4InV6Prefix @ [10, 244, 0, 3])] \<and>
   map_option Allocations
     (case run example_platform [Alloc ''c1'', Alloc ''c2''] test_ipam empty_world of
        None \<Rightarrow> None
      | Some (rs, i', w') \<Rightarrow>
          (case fst (New example_platform test_config w') of Inl e \<Rightarrow> None | Inr i2 \<Rightarrow> Some i2)) =
     Some [(''c1'', v4InV6Prefix @ [10, 244, 0, 2]), (''c2'', v4InV6Prefix @ [10, 244, 0, 3])]"
proof -
  let ?P = example_platform and ?i = busy_ipam
  let ?kvs = "map (\<lambda>(cid, ip). (cid, IP_String ?P ip)) (Allocations ?i)"
  let ?w1 = "snd (saveAllocations ?P ?i empty_world)"
  let ?d = "the (json_Marshal ?P ?kvs)"
  have h1: "ParseCIDR ?P (Config_Subnet test_config) = Some (Subnet test_ipam)" by code_simp
  have h2: "ParseIP ?P (Config_Gateway test_config) = Some (Gateway test_ipam)" by code_simp
  have h3: "dataDir ?i =
     (if Config_DataDir test_config = [] then ''/var/lib/cni/xvm-cni'' else Config_DataDir test_config)"
    by code_simp
  have s: "fst (saveAllocations ?P ?i empty_world) = None" by code_simp
  then have h4: "saveAllocations ?P ?i empty_world = (None, ?w1)"
    by (cases "saveAllocations ?P ?i empty_world") simp
  have "json_Marshal ?P ?kvs \<noteq> None" by code_simp
  then have h5: "json_Marshal ?P ?kvs = Some ?d" by simp
  have h6: "json_Unmarshal ?P ?d = Some ?kvs" by code_simp
  have h7: "distinct (map fst ?kvs)" by code_simp
  have h8: "map_of ?kvs = map_of ?kvs" ..
  have al: "Allocations ?i = [(''c1'', [10, 244, 0, 2]), (''c2'', [10, 244, 0, 3])]" by code_simp
  have p1: "ParseIP ?P (IP_String ?P [10, 244, 0, 2]) = Some (v4InV6Prefix @ [10, 244, 0, 2])" by code_simp
  have e1: "Equal [10, 244, 0, 2] (v4InV6Prefix @ [10, 244, 0, 2])" by code_simp
  have p2: "ParseIP ?P (IP_String ?P [10, 244, 0, 3]) = Some (v4InV6Prefix @ [10, 244, 0, 3])" by code_simp
  have e2: "Equal [10, 244, 0, 3] (v4InV6Prefix @ [10, 244, 0, 3])" by code_simp
  have h9: "\<forall>(c, a) \<in> set (Allocations ?i). \<exists>a'. ParseIP ?P (IP_String ?P a) = Some a' \<and> Equal a a'"
    unfolding al using p1 e1 p2 e2 by simp
  have h10: "fault ?P (trace ?w1) (MkdirAll (dataDir ?i)) = None"
    by (simp add: example_platform_def)
  have h11: "fault ?P (trace ?w1 @ [MkdirAll (dataDir ?i)]) (ReadFile (allocations_file ?P ?i)) = None"
    by (simp add: example_platform_def)
  from persistence_round_trip [OF h1 h2 h3 h4 h5 h6 h7 h8 h9 h10 h11]
  obtain i2 w2 where new: "New ?P test_config ?w1 = (Inr i2, w2)"
    and sg: "Subnet i2 = Subnet test_ipam" "Gateway i2 = Gateway test_ipam"
    and same: "\<And>c. (map_of (Allocations i2) c = None \<longleftrightarrow> map_of (Allocations ?i) c = None) \<and>
        (\<forall>a. map_of (Allocations ?i) c = Some a \<longrightarrow>
             (\<exists>a'. map_of (Allocations i2) c = Some a' \<and> Equal a a'))"
    by blast
  have "\<exists>a'. map_of (Allocations i2) ''c1'' = Some a' \<and> Equal [10, 244, 0, 2] a'"
    using same [of "''c1''"] by (simp add: al)
  moreover have "\<exists>a'. map_of (Allocations i2) ''c2'' = Some a' \<and> Equal [10, 244, 0, 3] a'"
    using same [of "''c2''"] by (simp add: al)
  moreover have "map_of (Allocations i2) ''c3'' = None"
    using same [of "''c3''"] by (simp add: al)
  ultimately have c: "(case fst (New ?P test_config ?w1) of
      Inl e \<Rightarrow> False
    | Inr i2 \<Rightarrow>
        Subnet i2 = Subnet test_ipam \<and> Gateway i2 = Gateway test_ipam \<and>
        (\<exists>a'. map_of (Allocations i2) ''c1'' = Some a' \<and> Equal [10, 244, 0, 2] a') \<and>
        (\<exists>a'. map_of (Allocations i2) ''c2'' = Some a' \<and> Equal [10, 244, 0, 3] a') \<and>
        map_of (Allocations i2) ''c3'' = None)"
    using sg by (simp add: new)
  have v: "map_option Allocations
     (case fst (New ?P test_config ?w1) of Inl e \<Rightarrow> None | Inr i2 \<Rightarrow> Some i2) =
     Some [(''c1'', v4InV6Prefix @ [10, 244, 0, 2]), (''c2'', v4InV6Prefix @ [10, 244, 0, 3])]"
    by code_simp
  have restart: "map_option Allocations
     (case run ?P [Alloc ''c1'', Alloc ''c2''] test_ipam empty_world of
        None \<Rightarrow> None
      | Some (rs, i', w') \<Rightarrow>
          (case fst (New ?P test_config w') of Inl e \<Rightarrow> None | Inr i2 \<Rightarrow> Some i2)) =
     Some [(''c1'', v4InV6Prefix @ [10, 244, 0, 2]), (''c2'', v4InV6Prefix @ [10, 244, 0, 3])]"
    by code_simp
  from h1 h2 h3 s h6 h7 al p1 e1 p2 e2 c v restart show ?thesis by (intro conjI)
qed

end
